theory Spec2Isabelle
  imports Main "HOL-Library.Product_Lexorder"
begin

section \<open>Dates, times of day and durations\<close>

text \<open>
  The program (\<^verbatim>\<open>AccountLocker.py\<close>) works with Python's \<^verbatim>\<open>datetime\<close>,
  \<^verbatim>\<open>datetime.time\<close> (imported as \<^verbatim>\<open>dtime\<close>) and \<^verbatim>\<open>timedelta\<close>. All its datetimes carry the
  same fixed \<^verbatim>\<open>tzinfo\<close> (\<^verbatim>\<open>self.local_tz\<close>), so Python compares and subtracts them field by
  field, ignoring the zone. The calendar date is kept as its proleptic Gregorian ordinal
  (\<^verbatim>\<open>date.toordinal()\<close>, day 1 is Monday 0001-01-01), which is all the program reads of it:
  the weekday, whole-day shifts and comparisons.
\<close>

datatype error = ValueError | OverflowError | RequestException

record dtime =
  hour :: int
  minute :: int
  second :: int
  microsecond :: int

record datetime =
  ordinal :: int
  tod :: dtime

text \<open>
  A \<^verbatim>\<open>timedelta\<close> is normalised by Python to days, seconds and microseconds; it is kept
  here as the number of microseconds it denotes.
\<close>

type_synonym timedelta = int

definition MAXORDINAL :: int where
  "MAXORDINAL = 3652059"

definition us_per_day :: int where
  "us_per_day = 86400000000"

definition timedelta_days :: "int \<Rightarrow> timedelta" where
  "timedelta_days n = n * us_per_day"

text \<open>
  The constructor and \<^verbatim>\<open>replace\<close> are implemented in C and first convert each argument
  to a C \<^verbatim>\<open>int\<close>, which raises \<^verbatim>\<open>OverflowError\<close> for a Python integer outside 32 bits.
\<close>

definition fits_c_int :: "int \<Rightarrow> bool" where
  "fits_c_int n \<longleftrightarrow> - 2147483648 \<le> n \<and> n \<le> 2147483647"

text \<open>
  \<^verbatim>\<open>dtime(h, m)\<close>: after the conversion, the constructor raises \<^verbatim>\<open>ValueError\<close> outside
  00:00..23:59.
\<close>

definition mk_dtime :: "int \<Rightarrow> int \<Rightarrow> error + dtime" where
  "mk_dtime h m =
     (if \<not> fits_c_int h \<or> \<not> fits_c_int m then Inl OverflowError
      else if 0 \<le> h \<and> h \<le> 23 \<and> 0 \<le> m \<and> m \<le> 59
      then Inr \<lparr>hour = h, minute = m, second = 0, microsecond = 0\<rparr>
      else Inl ValueError)"

text \<open>
  Python orders naive times, and datetimes of one zone, as the tuples of their fields,
  lexicographically.
\<close>

definition time_key :: "dtime \<Rightarrow> int \<times> int \<times> int \<times> int" where
  "time_key t = (hour t, minute t, second t, microsecond t)"

definition dt_key :: "datetime \<Rightarrow> int \<times> int \<times> int \<times> int \<times> int" where
  "dt_key d = (ordinal d, time_key (tod d))"

text \<open>\<^verbatim>\<open>datetime.weekday()\<close>: Monday is 0, Sunday is 6.\<close>

definition weekday :: "datetime \<Rightarrow> int" where
  "weekday d = (ordinal d + 6) mod 7"

definition valid_time :: "dtime \<Rightarrow> bool" where
  "valid_time t \<longleftrightarrow>
     0 \<le> hour t \<and> hour t \<le> 23 \<and> 0 \<le> minute t \<and> minute t \<le> 59 \<and>
     0 \<le> second t \<and> second t \<le> 59 \<and> 0 \<le> microsecond t \<and> microsecond t \<le> 999999"

definition valid_datetime :: "datetime \<Rightarrow> bool" where
  "valid_datetime d \<longleftrightarrow> 0 < ordinal d \<and> ordinal d \<le> MAXORDINAL \<and> valid_time (tod d)"

definition to_us :: "datetime \<Rightarrow> int" where
  "to_us d =
     ordinal d * us_per_day
       + ((hour (tod d) * 60 + minute (tod d)) * 60 + second (tod d)) * 1000000
       + microsecond (tod d)"

text \<open>
  \<^verbatim>\<open>datetime + timedelta\<close>: the sum is renormalised and \<^verbatim>\<open>OverflowError\<close> is raised when
  the day leaves 1..MAXORDINAL (years 1..9999).
\<close>

definition dt_add :: "datetime \<Rightarrow> timedelta \<Rightarrow> error + datetime" where
  "dt_add d td =
     (let total = to_us d + td;
          dys = total div us_per_day;
          rem = total mod us_per_day;
          secs = rem div 1000000
      in if 0 < dys \<and> dys \<le> MAXORDINAL
         then Inr \<lparr>ordinal = dys,
                   tod = \<lparr>hour = secs div 3600, minute = (secs mod 3600) div 60,
                          second = (secs mod 3600) mod 60, microsecond = rem mod 1000000\<rparr>\<rparr>
         else Inl OverflowError)"

text \<open>\<^verbatim>\<open>datetime - datetime\<close> for two datetimes of the same zone.\<close>

definition dt_sub :: "datetime \<Rightarrow> datetime \<Rightarrow> timedelta" where
  "dt_sub a b = to_us a - to_us b"

text \<open>\<^verbatim>\<open>dt.replace(hour=h, minute=m, second=0, microsecond=0)\<close>.\<close>

definition replace_hm :: "datetime \<Rightarrow> int \<Rightarrow> int \<Rightarrow> error + datetime" where
  "replace_hm d h m =
     (if \<not> fits_c_int h \<or> \<not> fits_c_int m then Inl OverflowError
      else if 0 \<le> h \<and> h \<le> 23 \<and> 0 \<le> m \<and> m \<le> 59
      then Inr (d\<lparr>tod := \<lparr>hour = h, minute = m, second = 0, microsecond = 0\<rparr>\<rparr>)
      else Inl ValueError)"

section \<open>Configuration and application state\<close>

text \<open>
  \<^verbatim>\<open>Config.data\<close> is a dictionary with the keys of \<^verbatim>\<open>DEFAULT_CONFIG\<close>. The two times are
  stored as \<^verbatim>\<open>'HH:MM'\<close> strings and read with \<^verbatim>\<open>map(int, s.split(':'))\<close>; the record
  holds the pair of integers that this yields.
\<close>

record config_data =
  password_hash :: string
  lock_time :: "int \<times> int"
  unlock_time :: "int \<times> int"
  days :: "int list"
  enabled :: bool

definition DEFAULT_CONFIG :: config_data where
  "DEFAULT_CONFIG =
     \<lparr>password_hash = [], lock_time = (18, 0), unlock_time = (6, 0),
      days = [0, 1, 2, 3, 4, 5, 6], enabled = True\<rparr>"

datatype level = DEBUG | INFO | WARNING | ERROR

text \<open>
  What the application does to the outside: a line in the log (the literal part of the
  message; interpolated values are not rendered) and the call of
  \<^verbatim>\<open>ctypes.windll.user32.LockWorkStation()\<close>. Tooltips and message boxes are presentation
  and are left out.
\<close>

datatype event = Logged level string | CallLockWorkStation

record locker_app =
  config :: config_data
  offset :: timedelta
  failed_attempts :: int
  events :: "event list"

text \<open>\<^verbatim>\<open>LockerApp.__init__\<close>, as far as the state goes.\<close>

definition init_app :: "config_data \<Rightarrow> locker_app" where
  "init_app cfg = \<lparr>config = cfg, offset = 0, failed_attempts = 0, events = []\<rparr>"

definition logging :: "level \<Rightarrow> string \<Rightarrow> locker_app \<Rightarrow> locker_app" where
  "logging lv msg app = app\<lparr>events := events app @ [Logged lv msg]\<rparr>"

section \<open>The lock window\<close>

text \<open>
  Lines 380-383 of \<^verbatim>\<open>check_lock\<close>, repeated as lines 233-236 of
  \<^verbatim>\<open>update_countdown\<close>.
\<close>

definition in_window_flag :: "dtime \<Rightarrow> dtime \<Rightarrow> dtime \<Rightarrow> bool" where
  "in_window_flag lock_t unlock_t now_t =
     (if time_key lock_t < time_key unlock_t
      then time_key lock_t \<le> time_key now_t \<and> time_key now_t < time_key unlock_t
      else time_key now_t \<ge> time_key lock_t \<or> time_key now_t < time_key unlock_t)"

text \<open>
  Lines 369-383 of \<^verbatim>\<open>check_lock\<close>: whether the branch \<^verbatim>\<open>if in_window:\<close> is taken. The
  early \<^verbatim>\<open>return\<close> of line 370 comes before the times are built, so a disabled schedule
  never raises.
\<close>

definition isInWindow :: "config_data \<Rightarrow> datetime \<Rightarrow> error + bool" where
  "isInWindow cfg now =
     (if \<not> enabled cfg \<or> weekday now \<notin> set (days cfg) then Inr False
      else case mk_dtime (fst (lock_time cfg)) (snd (lock_time cfg)) of
             Inl e \<Rightarrow> Inl e
           | Inr lock_t \<Rightarrow>
               (case mk_dtime (fst (unlock_time cfg)) (snd (unlock_time cfg)) of
                  Inl e \<Rightarrow> Inl e
                | Inr unlock_t \<Rightarrow> Inr (in_window_flag lock_t unlock_t (tod now))))"

section \<open>The next transition\<close>

text \<open>
  Lines 244-253 of \<^verbatim>\<open>update_countdown\<close>: the value of \<^verbatim>\<open>base\<close> that iteration \<open>i\<close> of
  the loop compares with \<^verbatim>\<open>now\<close>.
\<close>

definition candidate ::
  "config_data \<Rightarrow> datetime \<Rightarrow> bool \<Rightarrow> dtime \<Rightarrow> dtime \<Rightarrow> int \<Rightarrow> error + datetime" where
  "candidate cfg now in_window lock_t unlock_t i =
     (case dt_add now (timedelta_days i) of
        Inl e \<Rightarrow> Inl e
      | Inr shifted \<Rightarrow>
          (case replace_hm shifted
                  (if \<not> in_window then fst (lock_time cfg) else fst (unlock_time cfg))
                  (if \<not> in_window then snd (lock_time cfg) else snd (unlock_time cfg)) of
             Inl e \<Rightarrow> Inl e
           | Inr base \<Rightarrow>
               if in_window \<and> time_key lock_t \<ge> time_key unlock_t
                    \<and> (weekday now + i) mod 7 = weekday now
               then (if time_key (tod now) \<ge> time_key unlock_t
                     then dt_add base (timedelta_days 1) else Inr base)
               else Inr base))"

text \<open>
  The loop of lines 240-256 over the remaining values of \<open>i\<close>: \<^verbatim>\<open>continue\<close> on a day that
  is not enabled, \<^verbatim>\<open>break\<close> at the first candidate after \<^verbatim>\<open>now\<close>. The result is
  \<^verbatim>\<open>next_dt\<close>.
\<close>

fun scan ::
  "config_data \<Rightarrow> datetime \<Rightarrow> bool \<Rightarrow> dtime \<Rightarrow> dtime \<Rightarrow> int list \<Rightarrow> error + datetime option"
where
  "scan cfg now in_window lock_t unlock_t [] = Inr None"
| "scan cfg now in_window lock_t unlock_t (i # rest) =
     (if (weekday now + i) mod 7 \<notin> set (days cfg)
      then scan cfg now in_window lock_t unlock_t rest
      else case candidate cfg now in_window lock_t unlock_t i of
             Inl e \<Rightarrow> Inl e
           | Inr base \<Rightarrow>
               if dt_key base > dt_key now then Inr (Some base)
               else scan cfg now in_window lock_t unlock_t rest)"

text \<open>
  Lines 224-260 of \<^verbatim>\<open>update_countdown\<close>: \<open>None\<close> is the label \<^verbatim>\<open>'N/A'\<close>, \<open>Some d\<close> the
  instant the countdown runs to. The schedule is the one shown in the dialog's widgets and
  \<^verbatim>\<open>now\<close> the corrected current time of line 215. The formatting of the remaining time
  is not modelled.
\<close>

definition next_transition :: "config_data \<Rightarrow> datetime \<Rightarrow> error + datetime option" where
  "next_transition cfg now =
     (if \<not> enabled cfg \<or> weekday now \<notin> set (days cfg) then Inr None
      else case mk_dtime (fst (lock_time cfg)) (snd (lock_time cfg)) of
             Inl e \<Rightarrow> Inl e
           | Inr lock_t \<Rightarrow>
               (case mk_dtime (fst (unlock_time cfg)) (snd (unlock_time cfg)) of
                  Inl e \<Rightarrow> Inl e
                | Inr unlock_t \<Rightarrow>
                    scan cfg now (in_window_flag lock_t unlock_t (tod now)) lock_t unlock_t
                      [0, 1, 2, 3, 4, 5, 6]))"

section \<open>The drift-corrected clock\<close>

text \<open>\<^verbatim>\<open>current_time\<close>: the local clock reading \<open>sys_now\<close> plus the stored offset.\<close>

definition current_time :: "locker_app \<Rightarrow> datetime \<Rightarrow> error + datetime" where
  "current_time app sys_now = dt_add sys_now (offset app)"

text \<open>
  The body of the \<^verbatim>\<open>try\<close> in \<^verbatim>\<open>sync_time\<close> (lines 348-357). The outside world is given
  as arguments: \<open>r\<close> is what \<^verbatim>\<open>requests.head\<close> did (\<open>Inl\<close> when it raised, otherwise the
  value of \<^verbatim>\<open>r.headers.get('Date')\<close>), \<open>strptime\<close> is the library's parser for the format
  \<^verbatim>\<open>'%a, %d %b %Y %H:%M:%S GMT'\<close>, \<open>utcoffset\<close> the fixed offset of \<^verbatim>\<open>self.local_tz\<close>
  (\<^verbatim>\<open>astimezone\<close> adds it), and \<open>sys_local\<close> the reading of \<^verbatim>\<open>datetime.now(self.local_tz)\<close>.
  The offset is assigned only after everything that can raise.
\<close>

definition sync_try ::
  "(string \<Rightarrow> error + datetime) \<Rightarrow> timedelta \<Rightarrow> locker_app \<Rightarrow> datetime
     \<Rightarrow> error + string option \<Rightarrow> error + locker_app" where
  "sync_try strptime utcoffset app sys_local r =
     (case r of
        Inl e \<Rightarrow> Inl e
      | Inr None \<Rightarrow> Inr app
      | Inr (Some date_str) \<Rightarrow>
          if date_str = [] then Inr app
          else (case strptime date_str of
                  Inl e \<Rightarrow> Inl e
                | Inr dt_utc \<Rightarrow>
                    (case dt_add dt_utc utcoffset of
                       Inl e \<Rightarrow> Inl e
                     | Inr dt_local \<Rightarrow>
                         Inr (logging DEBUG ''Time offset (google_local - sys_local): ''
                                (app\<lparr>offset := dt_sub dt_local sys_local\<rparr>)))))"

text \<open>
  \<^verbatim>\<open>sync_time\<close>: the \<^verbatim>\<open>except Exception\<close> clause logs and swallows whatever the body
  raised. The source runs the work on a daemon thread; here it is one atomic step.
\<close>

definition sync_time ::
  "(string \<Rightarrow> error + datetime) \<Rightarrow> timedelta \<Rightarrow> locker_app \<Rightarrow> datetime
     \<Rightarrow> error + string option \<Rightarrow> locker_app" where
  "sync_time strptime utcoffset app sys_local r =
     (case sync_try strptime utcoffset app sys_local r of
        Inl e \<Rightarrow> logging ERROR ''Time sync failed: '' app
      | Inr app' \<Rightarrow> app')"

section \<open>The lock controller\<close>

text \<open>
  \<^verbatim>\<open>lock_workstation\<close>; \<open>raised\<close> tells whether the system call raised, which is logged
  and swallowed.
\<close>

definition lock_workstation :: "bool \<Rightarrow> locker_app \<Rightarrow> locker_app" where
  "lock_workstation raised app =
     (let app1 = logging INFO ''Locking workstation'' app;
          app2 = app1\<lparr>events := events app1 @ [CallLockWorkStation]\<rparr>
      in if raised then logging ERROR ''Lock failed: '' app2 else app2)"

text \<open>
  \<^verbatim>\<open>check_lock\<close>, the slot of the 60 second timer. An exception of \<^verbatim>\<open>current_time\<close> or of
  the \<^verbatim>\<open>dtime\<close> constructor leaves the slot.
\<close>

definition check_lock :: "locker_app \<Rightarrow> datetime \<Rightarrow> bool \<Rightarrow> error + locker_app" where
  "check_lock app sys_now raised =
     (case current_time app sys_now of
        Inl e \<Rightarrow> Inl e
      | Inr now \<Rightarrow>
          (case isInWindow (config app) now of
             Inl e \<Rightarrow> Inl e
           | Inr in_window \<Rightarrow>
               Inr (if in_window
                    then lock_workstation raised (logging INFO ''Scheduled lock triggered'' app)
                    else app)))"

text \<open>
  A run of the timer: one \<^verbatim>\<open>check_lock\<close> per tick, each tick giving the local clock
  reading and whether the system call raises; the run ends at the first exception.
\<close>

fun poll :: "locker_app \<Rightarrow> (datetime \<times> bool) list \<Rightarrow> error + locker_app" where
  "poll app [] = Inr app"
| "poll app (t # ts) =
     (case check_lock app (fst t) (snd t) of
        Inl e \<Rightarrow> Inl e
      | Inr app' \<Rightarrow> poll app' ts)"

definition lock_calls :: "locker_app \<Rightarrow> nat" where
  "lock_calls app = count_list (events app) CallLockWorkStation"

text \<open>How often the log says that the schedule triggered a lock (line 386).\<close>

definition trigger_logs :: "locker_app \<Rightarrow> nat" where
  "trigger_logs app = count_list (events app) (Logged INFO ''Scheduled lock triggered'')"

text \<open>Whether a tick at local clock reading \<open>sys_now\<close> finds the window active.\<close>

definition tick_in_window :: "locker_app \<Rightarrow> datetime \<Rightarrow> bool" where
  "tick_in_window app sys_now =
     (case current_time app sys_now of
        Inl e \<Rightarrow> False
      | Inr now \<Rightarrow> isInWindow (config app) now = Inr True)"

text \<open>
  The controller of the specification (section 4.3), written from its words and not from
  the source: a flag remembers whether the previous tick was in the window, and the lock
  action fires only on a tick that is in the window while the flag is down. This counts
  the entries into the window along a sequence of observations.
\<close>

fun spec_window_entries :: "bool \<Rightarrow> bool list \<Rightarrow> nat" where
  "spec_window_entries was_in_window [] = 0"
| "spec_window_entries was_in_window (b # bs) =
     (if b \<and> \<not> was_in_window then 1 else 0) + spec_window_entries b bs"

section \<open>The authentication gate\<close>

text \<open>
  \<^verbatim>\<open>verify\<close>: \<open>dlg\<close> is what the password dialog returned, the text and whether it was
  accepted. \<open>hash_password\<close> is \<^verbatim>\<open>hashlib.sha256(pw.encode('utf-8')).hexdigest()\<close>, taken
  as a parameter.
\<close>

definition verify ::
  "(string \<Rightarrow> string) \<Rightarrow> locker_app \<Rightarrow> string \<times> bool \<Rightarrow> bool \<times> locker_app" where
  "verify hash_password app dlg =
     (if \<not> snd dlg then (False, app)
      else if hash_password (fst dlg) = password_hash (config app)
      then (True, app\<lparr>failed_attempts := 0\<rparr>)
      else (False, logging WARNING ''Password attempt failed (''
                     (app\<lparr>failed_attempts := failed_attempts app + 1\<rparr>)))"

section \<open>Concrete schedules and instants\<close>

text \<open>Monday 2024-01-01 has ordinal 738886; the days after it follow.\<close>

definition at_hm :: "int \<Rightarrow> int \<Rightarrow> int \<Rightarrow> datetime" where
  "at_hm d h m = \<lparr>ordinal = d, tod = \<lparr>hour = h, minute = m, second = 0, microsecond = 0\<rparr>\<rparr>"

definition monday :: int where "monday = 738886"
definition tuesday :: int where "tuesday = 738887"
definition friday :: int where "friday = 738890"
definition saturday :: int where "saturday = 738891"
definition next_monday :: int where "next_monday = 738893"

definition office_hours :: "int list \<Rightarrow> config_data" where
  "office_hours ds =
     \<lparr>password_hash = [], lock_time = (9, 0), unlock_time = (17, 0), days = ds, enabled = True\<rparr>"

definition noon_to_noon :: config_data where
  "noon_to_noon =
     \<lparr>password_hash = [], lock_time = (12, 0), unlock_time = (12, 0),
      days = [0, 1, 2, 3, 4, 5, 6], enabled = True\<rparr>"

text \<open>
  A parser for the examples: it reads one \<^verbatim>\<open>Date\<close> header, that of Monday 2024-01-01
  12:00:00 GMT, and raises \<^verbatim>\<open>ValueError\<close> on every other string, as \<^verbatim>\<open>strptime\<close> does
  on a string that does not match its format.
\<close>

definition sample_strptime :: "string \<Rightarrow> error + datetime" where
  "sample_strptime s =
     (if s = ''Mon, 01 Jan 2024 12:00:00 GMT'' then Inr (at_hm monday 12 0) else Inl ValueError)"

section \<open>The lock window: claims C1, C2, C9 and C10\<close>

text \<open>The definitions that evaluating a concrete schedule at a concrete instant unfolds.\<close>

lemmas concrete_defs =
  DEFAULT_CONFIG_def office_hours_def noon_to_noon_def at_hm_def monday_def tuesday_def friday_def
  saturday_def next_monday_def weekday_def mk_dtime_def fits_c_int_def time_key_def

text \<open>
  Claim C1. \<open>isInWindow\<close> is false whenever the schedule is disabled or the weekday of
  \<open>now\<close> is not an enabled day. Otherwise, with valid lock and unlock times: when the lock
  time is before the unlock time it is true iff lock time \<open>\<le>\<close> time of day of \<open>now\<close> \<open><\<close>
  unlock time; when the lock time is at or after the unlock time (the window wraps) it is
  true iff the time of day is at or after the lock time, or before the unlock time.
\<close>

theorem isInWindow_characterisation:
  "(\<not> enabled cfg \<or> weekday now \<notin> set (days cfg) \<longrightarrow> isInWindow cfg now = Inr False) \<and>
   (enabled cfg \<and> weekday now \<in> set (days cfg) \<and>
    mk_dtime (fst (lock_time cfg)) (snd (lock_time cfg)) = Inr lock_t \<and>
    mk_dtime (fst (unlock_time cfg)) (snd (unlock_time cfg)) = Inr unlock_t \<longrightarrow>
      (time_key lock_t < time_key unlock_t \<longrightarrow>
         isInWindow cfg now =
           Inr (time_key lock_t \<le> time_key (tod now) \<and> time_key (tod now) < time_key unlock_t)) \<and>
      (time_key lock_t \<ge> time_key unlock_t \<longrightarrow>
         isInWindow cfg now =
           Inr (time_key (tod now) \<ge> time_key lock_t \<or> time_key (tod now) < time_key unlock_t)))"
proof (intro conjI impI)
  assume "\<not> enabled cfg \<or> weekday now \<notin> set (days cfg)"
  then show "isInWindow cfg now = Inr False"
    by (auto simp: isInWindow_def)
next
  assume a: "enabled cfg \<and> weekday now \<in> set (days cfg) \<and>
    mk_dtime (fst (lock_time cfg)) (snd (lock_time cfg)) = Inr lock_t \<and>
    mk_dtime (fst (unlock_time cfg)) (snd (unlock_time cfg)) = Inr unlock_t"
  then have w: "isInWindow cfg now = Inr (in_window_flag lock_t unlock_t (tod now))"
    by (simp add: isInWindow_def)
  {
    assume "time_key lock_t < time_key unlock_t"
    then show "isInWindow cfg now =
        Inr (time_key lock_t \<le> time_key (tod now) \<and> time_key (tod now) < time_key unlock_t)"
      using w by (simp add: in_window_flag_def)
  }
  {
    assume "time_key unlock_t \<le> time_key lock_t"
    then have "\<not> time_key lock_t < time_key unlock_t" by (simp add: not_less)
    then show "isInWindow cfg now =
        Inr (time_key lock_t \<le> time_key (tod now) \<or> time_key (tod now) < time_key unlock_t)"
      using w by (simp add: in_window_flag_def)
  }
qed

text \<open>
  Witness for C1: a disabled schedule, a day that is not enabled, and instants inside and
  outside a plain and a wrapping window.
\<close>

theorem isInWindow_characterisation_witness:
  "isInWindow (DEFAULT_CONFIG\<lparr>enabled := False\<rparr>) (at_hm monday 20 0) = Inr False \<and>
   isInWindow (office_hours [0, 1, 2, 3, 4]) (at_hm saturday 10 0) = Inr False \<and>
   isInWindow (office_hours [0, 1, 2, 3, 4]) (at_hm monday 10 0) = Inr True \<and>
   isInWindow (office_hours [0, 1, 2, 3, 4]) (at_hm monday 17 0) = Inr False \<and>
   isInWindow DEFAULT_CONFIG (at_hm monday 20 0) = Inr True \<and>
   isInWindow DEFAULT_CONFIG (at_hm monday 5 59) = Inr True \<and>
   isInWindow DEFAULT_CONFIG (at_hm monday 12 0) = Inr False"
  using isInWindow_characterisation [of "DEFAULT_CONFIG\<lparr>enabled := False\<rparr>" "at_hm monday 20 0"]
    isInWindow_characterisation [of "office_hours [0, 1, 2, 3, 4]" "at_hm saturday 10 0"]
    isInWindow_characterisation [of "office_hours [0, 1, 2, 3, 4]" "at_hm monday 10 0"
      "\<lparr>hour = 9, minute = 0, second = 0, microsecond = 0\<rparr>"
      "\<lparr>hour = 17, minute = 0, second = 0, microsecond = 0\<rparr>"]
    isInWindow_characterisation [of "office_hours [0, 1, 2, 3, 4]" "at_hm monday 17 0"
      "\<lparr>hour = 9, minute = 0, second = 0, microsecond = 0\<rparr>"
      "\<lparr>hour = 17, minute = 0, second = 0, microsecond = 0\<rparr>"]
    isInWindow_characterisation [of DEFAULT_CONFIG "at_hm monday 20 0"
      "\<lparr>hour = 18, minute = 0, second = 0, microsecond = 0\<rparr>"
      "\<lparr>hour = 6, minute = 0, second = 0, microsecond = 0\<rparr>"]
    isInWindow_characterisation [of DEFAULT_CONFIG "at_hm monday 5 59"
      "\<lparr>hour = 18, minute = 0, second = 0, microsecond = 0\<rparr>"
      "\<lparr>hour = 6, minute = 0, second = 0, microsecond = 0\<rparr>"]
    isInWindow_characterisation [of DEFAULT_CONFIG "at_hm monday 12 0"
      "\<lparr>hour = 18, minute = 0, second = 0, microsecond = 0\<rparr>"
      "\<lparr>hour = 6, minute = 0, second = 0, microsecond = 0\<rparr>"]
  by (simp add: concrete_defs)

text \<open>
  Claim C2 says that at the unlock time \<open>isInWindow\<close> is false in the wrapping case
  too, and the wrapping case includes equal lock and unlock times. Counterexample to C2:
  with both times at 12:00, on an enabled Monday at 12:00 the time of day equals the unlock
  time and \<open>isInWindow\<close> is true.
\<close>

theorem boundary_counterexample:
  "enabled noon_to_noon \<and> weekday (at_hm monday 12 0) \<in> set (days noon_to_noon) \<and>
   mk_dtime (fst (unlock_time noon_to_noon)) (snd (unlock_time noon_to_noon))
     = Inr (tod (at_hm monday 12 0)) \<and>
   isInWindow noon_to_noon (at_hm monday 12 0) = Inr True"
  by (simp add: concrete_defs isInWindow_def in_window_flag_def)

text \<open>
  Claim C2, amended. For an enabled schedule with valid times and an instant on an enabled
  weekday: at the lock time \<open>isInWindow\<close> is true, in the wrapping and in the plain case;
  at the unlock time it is false, in both cases, provided the unlock time differs from the
  lock time.
\<close>

theorem boundary_inclusive_exclusive:
  assumes "enabled cfg" and "weekday now \<in> set (days cfg)"
    and "mk_dtime (fst (lock_time cfg)) (snd (lock_time cfg)) = Inr lock_t"
    and "mk_dtime (fst (unlock_time cfg)) (snd (unlock_time cfg)) = Inr unlock_t"
  shows "(time_key (tod now) = time_key lock_t \<longrightarrow> isInWindow cfg now = Inr True) \<and>
         (time_key (tod now) = time_key unlock_t \<and> time_key lock_t \<noteq> time_key unlock_t \<longrightarrow>
            isInWindow cfg now = Inr False)"
proof -
  have w: "isInWindow cfg now = Inr (in_window_flag lock_t unlock_t (tod now))"
    using assms by (simp add: isInWindow_def)
  have lower: "in_window_flag lock_t unlock_t (tod now)"
    if "time_key (tod now) = time_key lock_t"
    using that by (simp add: in_window_flag_def)
  have upper: "\<not> in_window_flag lock_t unlock_t (tod now)"
    if "time_key (tod now) = time_key unlock_t" "time_key lock_t \<noteq> time_key unlock_t"
    using that by (auto simp: in_window_flag_def)
  show ?thesis using w lower upper by auto
qed

text \<open>
  Witness for C2 (amended): both bounds of the default 18:00-06:00 window and of a
  09:00-17:00 window.
\<close>

theorem boundary_inclusive_exclusive_witness:
  "isInWindow DEFAULT_CONFIG (at_hm monday 18 0) = Inr True \<and>
   isInWindow DEFAULT_CONFIG (at_hm monday 6 0) = Inr False \<and>
   isInWindow (office_hours [0, 1, 2, 3, 4]) (at_hm monday 9 0) = Inr True \<and>
   isInWindow (office_hours [0, 1, 2, 3, 4]) (at_hm monday 17 0) = Inr False"
  using boundary_inclusive_exclusive [of DEFAULT_CONFIG "at_hm monday 18 0"
      "\<lparr>hour = 18, minute = 0, second = 0, microsecond = 0\<rparr>"
      "\<lparr>hour = 6, minute = 0, second = 0, microsecond = 0\<rparr>"]
    boundary_inclusive_exclusive [of DEFAULT_CONFIG "at_hm monday 6 0"
      "\<lparr>hour = 18, minute = 0, second = 0, microsecond = 0\<rparr>"
      "\<lparr>hour = 6, minute = 0, second = 0, microsecond = 0\<rparr>"]
    boundary_inclusive_exclusive [of "office_hours [0, 1, 2, 3, 4]" "at_hm monday 9 0"
      "\<lparr>hour = 9, minute = 0, second = 0, microsecond = 0\<rparr>"
      "\<lparr>hour = 17, minute = 0, second = 0, microsecond = 0\<rparr>"]
    boundary_inclusive_exclusive [of "office_hours [0, 1, 2, 3, 4]" "at_hm monday 17 0"
      "\<lparr>hour = 9, minute = 0, second = 0, microsecond = 0\<rparr>"
      "\<lparr>hour = 17, minute = 0, second = 0, microsecond = 0\<rparr>"]
  by (simp add: concrete_defs)

text \<open>
  Claim C9. When the lock time equals the unlock time, an enabled schedule is in its window
  at every time of day of every enabled day, the unlock time itself included.
\<close>

theorem equal_times_whole_day:
  assumes "enabled cfg" and "weekday now \<in> set (days cfg)"
    and "lock_time cfg = unlock_time cfg"
    and "mk_dtime (fst (lock_time cfg)) (snd (lock_time cfg)) = Inr t"
  shows "isInWindow cfg now = Inr True"
proof -
  have "isInWindow cfg now = Inr (in_window_flag t t (tod now))"
    using assms by (simp add: isInWindow_def)
  moreover have "in_window_flag t t (tod now)"
    by (auto simp: in_window_flag_def)
  ultimately show ?thesis by simp
qed

text \<open>
  Witness for C9: the 12:00-12:00 schedule at its unlock time and at two other times.
\<close>

theorem equal_times_whole_day_witness:
  "isInWindow noon_to_noon (at_hm tuesday 12 0) = Inr True \<and>
   isInWindow noon_to_noon (at_hm tuesday 3 17) = Inr True \<and>
   isInWindow noon_to_noon (at_hm saturday 23 59) = Inr True"
  using equal_times_whole_day [of noon_to_noon "at_hm tuesday 12 0"
      "\<lparr>hour = 12, minute = 0, second = 0, microsecond = 0\<rparr>"]
    equal_times_whole_day [of noon_to_noon "at_hm tuesday 3 17"
      "\<lparr>hour = 12, minute = 0, second = 0, microsecond = 0\<rparr>"]
    equal_times_whole_day [of noon_to_noon "at_hm saturday 23 59"
      "\<lparr>hour = 12, minute = 0, second = 0, microsecond = 0\<rparr>"]
  by (simp add: concrete_defs)

text \<open>
  Claim C10. Only the weekday of \<open>now\<close> is looked up in the enabled days. For a wrapping
  schedule and an instant before the unlock time whose weekday is not enabled,
  \<open>isInWindow\<close> is false, also when the day before is enabled and the window was open
  there from the lock time on.
\<close>

theorem wrapped_window_cut_at_midnight:
  assumes "mk_dtime (fst (lock_time cfg)) (snd (lock_time cfg)) = Inr lock_t"
    and "mk_dtime (fst (unlock_time cfg)) (snd (unlock_time cfg)) = Inr unlock_t"
    and "time_key lock_t \<ge> time_key unlock_t"
    and "time_key (tod now) < time_key unlock_t"
    and "weekday now \<notin> set (days cfg)"
  shows "isInWindow cfg now = Inr False \<and>
         (enabled cfg \<and> ordinal prev = ordinal now - 1 \<and> weekday prev \<in> set (days cfg) \<and>
          time_key (tod prev) \<ge> time_key lock_t \<longrightarrow> isInWindow cfg prev = Inr True)"
proof
  show "isInWindow cfg now = Inr False"
    using assms(5) by (simp add: isInWindow_def)
next
  have "\<not> time_key lock_t < time_key unlock_t"
    using assms(3) by (simp add: not_less)
  then show "enabled cfg \<and> ordinal prev = ordinal now - 1 \<and> weekday prev \<in> set (days cfg) \<and>
      time_key (tod prev) \<ge> time_key lock_t \<longrightarrow> isInWindow cfg prev = Inr True"
    using assms(1,2) by (simp add: isInWindow_def in_window_flag_def)
qed

text \<open>
  Witness for C10: the default 18:00-06:00 window enabled on Mondays only is open on Monday
  at 23:00 and closed on Tuesday at 03:00.
\<close>

theorem wrapped_window_cut_at_midnight_witness:
  "isInWindow (DEFAULT_CONFIG\<lparr>days := [0]\<rparr>) (at_hm tuesday 3 0) = Inr False \<and>
   isInWindow (DEFAULT_CONFIG\<lparr>days := [0]\<rparr>) (at_hm monday 23 0) = Inr True"
  using wrapped_window_cut_at_midnight [of "DEFAULT_CONFIG\<lparr>days := [0]\<rparr>"
      "\<lparr>hour = 18, minute = 0, second = 0, microsecond = 0\<rparr>"
      "\<lparr>hour = 6, minute = 0, second = 0, microsecond = 0\<rparr>"
      "at_hm tuesday 3 0" "at_hm monday 23 0"]
  by (simp add: concrete_defs)

section \<open>The next transition lies in the future: claim C6\<close>

lemma scan_after_now:
  "scan cfg now in_window lock_t unlock_t js = Inr (Some r) \<Longrightarrow> dt_key now < dt_key r"
  by (induction js) (auto split: if_splits sum.splits)

text \<open>
  Claim C6. Whenever \<open>next_transition\<close> returns an instant, for any schedule and any
  \<open>now\<close>, that instant is strictly after \<open>now\<close>.
\<close>

theorem next_transition_after_now:
  "next_transition cfg now = Inr (Some r) \<Longrightarrow> dt_key now < dt_key r"
  unfolding next_transition_def
  by (auto simp del: scan.simps split: if_splits sum.splits dest: scan_after_now)

text \<open>The definitions that evaluating \<open>next_transition\<close> at a concrete instant unfolds.\<close>

lemmas transition_defs =
  next_transition_def in_window_flag_def candidate_def dt_add_def to_us_def timedelta_days_def
  us_per_day_def MAXORDINAL_def replace_hm_def dt_key_def

text \<open>
  Witness for C6: on Monday at 20:00 the default schedule's next transition is Tuesday
  06:00, which is later.
\<close>

theorem next_transition_after_now_witness:
  "next_transition DEFAULT_CONFIG (at_hm monday 20 0) = Inr (Some (at_hm tuesday 6 0)) \<and>
   dt_key (at_hm monday 20 0) < dt_key (at_hm tuesday 6 0)"
proof -
  have r: "next_transition DEFAULT_CONFIG (at_hm monday 20 0) = Inr (Some (at_hm tuesday 6 0))"
    by (simp add: concrete_defs transition_defs)
  show ?thesis using r next_transition_after_now [OF r] by simp
qed

section \<open>The authentication gate: claim C8\<close>

text \<open>
  Claim C8. \<open>verify\<close> hashes the candidate and compares the digest with the stored one.
  On equality it reports success and sets the failure counter to zero; on inequality it
  reports failure and adds one to the counter. Nothing depends on the counter: with any
  value of it the same dialog input gets the same answer.
\<close>

theorem verify_spec:
  "(hash_password pw = password_hash (config app) \<longrightarrow>
      verify hash_password app (pw, True) = (True, app\<lparr>failed_attempts := 0\<rparr>)) \<and>
   (hash_password pw \<noteq> password_hash (config app) \<longrightarrow>
      fst (verify hash_password app (pw, True)) = False \<and>
      failed_attempts (snd (verify hash_password app (pw, True))) = failed_attempts app + 1) \<and>
   fst (verify hash_password (app\<lparr>failed_attempts := n\<rparr>) dlg)
     = fst (verify hash_password app dlg)"
  by (simp add: verify_def logging_def)

text \<open>
  Witness for C8, with list reversal standing for the digest: the right password succeeds,
  a wrong one fails and counts, and the right one still succeeds after 1000 failures.
\<close>

theorem verify_spec_witness:
  "verify rev (init_app (DEFAULT_CONFIG\<lparr>password_hash := ''terces''\<rparr>)) (''secret'', True)
     = (True, init_app (DEFAULT_CONFIG\<lparr>password_hash := ''terces''\<rparr>)) \<and>
   fst (verify rev (init_app (DEFAULT_CONFIG\<lparr>password_hash := ''terces''\<rparr>)) (''guess'', True))
     = False \<and>
   failed_attempts
     (snd (verify rev (init_app (DEFAULT_CONFIG\<lparr>password_hash := ''terces''\<rparr>)) (''guess'', True)))
     = 1 \<and>
   fst (verify rev
          ((init_app (DEFAULT_CONFIG\<lparr>password_hash := ''terces''\<rparr>))\<lparr>failed_attempts := 1000\<rparr>)
          (''secret'', True)) = True"
  using verify_spec [of rev "''secret''" "init_app (DEFAULT_CONFIG\<lparr>password_hash := ''terces''\<rparr>)" 1000
      "(''secret'', True)"]
    verify_spec [of rev "''guess''" "init_app (DEFAULT_CONFIG\<lparr>password_hash := ''terces''\<rparr>)" 0]
  by (simp add: init_app_def DEFAULT_CONFIG_def)

section \<open>The lock controller: claim C3\<close>

lemma lock_calls_logging:
  "lock_calls (logging lv msg app) = lock_calls app"
  by (simp add: lock_calls_def logging_def)

lemma lock_calls_lock_workstation:
  "lock_calls (lock_workstation raised app) = lock_calls app + 1"
  by (simp add: lock_workstation_def lock_calls_def logging_def Let_def)

lemma check_lock_frame:
  "check_lock app sys_now raised = Inr app' \<Longrightarrow>
     config app' = config app \<and> offset app' = offset app"
  by (auto simp: check_lock_def lock_workstation_def logging_def Let_def
           split: sum.splits if_splits)

lemma check_lock_calls:
  "check_lock app sys_now raised = Inr app' \<Longrightarrow>
     lock_calls app' = lock_calls app + (if tick_in_window app sys_now then 1 else 0)"
  by (auto simp: check_lock_def tick_in_window_def lock_calls_lock_workstation
                 lock_calls_logging
           split: sum.splits if_splits)

lemma tick_in_window_frame:
  "config a = config b \<Longrightarrow> offset a = offset b \<Longrightarrow> tick_in_window a = tick_in_window b"
  by (rule ext) (simp add: tick_in_window_def current_time_def split: sum.splits)

lemma poll_Cons_Inr:
  "poll app (t # ts) = Inr app' \<Longrightarrow>
     \<exists>app1. check_lock app (fst t) (snd t) = Inr app1 \<and> poll app1 ts = Inr app'"
  by (cases "check_lock app (fst t) (snd t)") simp_all

lemma poll_calls:
  "poll app ticks = Inr app' \<Longrightarrow>
     lock_calls app' = lock_calls app + length (filter (tick_in_window app) (map fst ticks))"
proof (induction ticks arbitrary: app)
  case Nil
  then show ?case by simp
next
  case (Cons t ts)
  from poll_Cons_Inr [OF Cons.prems] obtain app1 where
    step: "check_lock app (fst t) (snd t) = Inr app1" and rest: "poll app1 ts = Inr app'"
    by blast
  have same: "tick_in_window app1 = tick_in_window app"
    using check_lock_frame [OF step] by (intro tick_in_window_frame) simp_all
  have "lock_calls app' = lock_calls app1 + length (filter (tick_in_window app1) (map fst ts))"
    using rest by (rule Cons.IH)
  then have "lock_calls app' = lock_calls app1 + length (filter (tick_in_window app) (map fst ts))"
    by (simp only: same)
  moreover have "lock_calls app1 =
      lock_calls app + (if tick_in_window app (fst t) then 1 else 0)"
    using step by (rule check_lock_calls)
  ultimately show ?case by simp
qed

lemma spec_window_entries_le:
  "spec_window_entries was bs \<le> length (filter (\<lambda>b. b) bs)"
proof (induction bs arbitrary: was)
  case Nil
  then show ?case by simp
next
  case (Cons b bs)
  have "spec_window_entries b bs \<le> length (filter (\<lambda>b. b) bs)"
    by (rule Cons.IH)
  then show ?case by (cases b; cases was) simp_all
qed

text \<open>
  One tick adds the trigger line to the log exactly when it is in the window, and appends
  one block of events: the trigger line, the line of \<^verbatim>\<open>lock_workstation\<close>, the system call
  and, when that raised, the error line.
\<close>

lemma trigger_logs_lock_workstation:
  "trigger_logs (lock_workstation raised app) = trigger_logs app"
  by (simp add: lock_workstation_def trigger_logs_def logging_def Let_def)

lemma check_lock_triggers:
  "check_lock app sys_now raised = Inr app' \<Longrightarrow>
     trigger_logs app' = trigger_logs app + (if tick_in_window app sys_now then 1 else 0)"
  by (auto simp: check_lock_def tick_in_window_def trigger_logs_lock_workstation
        split: sum.splits if_splits)
     (simp_all add: trigger_logs_def logging_def)

lemma check_lock_events:
  "check_lock app sys_now raised = Inr app' \<Longrightarrow>
     events app' = events app @
       (if tick_in_window app sys_now
        then [Logged INFO ''Scheduled lock triggered'', Logged INFO ''Locking workstation'',
              CallLockWorkStation] @ (if raised then [Logged ERROR ''Lock failed: ''] else [])
        else [])"
  by (auto simp: check_lock_def tick_in_window_def lock_workstation_def logging_def Let_def
        split: sum.splits if_splits)

lemma poll_triggers:
  "poll app ticks = Inr app' \<Longrightarrow>
     trigger_logs app' = trigger_logs app + length (filter (tick_in_window app) (map fst ticks))"
proof (induction ticks arbitrary: app)
  case Nil
  then show ?case by simp
next
  case (Cons t ts)
  from poll_Cons_Inr [OF Cons.prems] obtain app1 where
    step: "check_lock app (fst t) (snd t) = Inr app1" and rest: "poll app1 ts = Inr app'"
    by blast
  have same: "tick_in_window app1 = tick_in_window app"
    using check_lock_frame [OF step] by (intro tick_in_window_frame) simp_all
  have "trigger_logs app' = trigger_logs app1 + length (filter (tick_in_window app1) (map fst ts))"
    using rest by (rule Cons.IH)
  then have "trigger_logs app' = trigger_logs app1 + length (filter (tick_in_window app) (map fst ts))"
    by (simp only: same)
  moreover have "trigger_logs app1 =
      trigger_logs app + (if tick_in_window app (fst t) then 1 else 0)"
    using step by (rule check_lock_triggers)
  ultimately show ?case by simp
qed

lemma poll_events:
  "poll app ticks = Inr app' \<Longrightarrow>
     events app' = events app @
       concat (map (\<lambda>t. if tick_in_window app (fst t)
                         then [Logged INFO ''Scheduled lock triggered'',
                               Logged INFO ''Locking workstation'', CallLockWorkStation]
                              @ (if snd t then [Logged ERROR ''Lock failed: ''] else [])
                         else []) ticks)"
proof (induction ticks arbitrary: app)
  case Nil
  then show ?case by simp
next
  case (Cons t ts)
  from poll_Cons_Inr [OF Cons.prems] obtain app1 where
    step: "check_lock app (fst t) (snd t) = Inr app1" and rest: "poll app1 ts = Inr app'"
    by blast
  have same: "tick_in_window app1 = tick_in_window app"
    using check_lock_frame [OF step] by (intro tick_in_window_frame) simp_all
  have "events app' = events app1 @
       concat (map (\<lambda>t. if tick_in_window app1 (fst t)
                         then [Logged INFO ''Scheduled lock triggered'',
                               Logged INFO ''Locking workstation'', CallLockWorkStation]
                              @ (if snd t then [Logged ERROR ''Lock failed: ''] else [])
                         else []) ts)"
    using rest by (rule Cons.IH)
  then have "events app' = events app1 @
       concat (map (\<lambda>t. if tick_in_window app (fst t)
                         then [Logged INFO ''Scheduled lock triggered'',
                               Logged INFO ''Locking workstation'', CallLockWorkStation]
                              @ (if snd t then [Logged ERROR ''Lock failed: ''] else [])
                         else []) ts)"
    by (simp only: same)
  then show ?case
    by (simp add: check_lock_events [OF step])
qed

text \<open>
  Claim C3, amended. Over every sequence of poll ticks that runs without an exception, each
  tick that finds the window active logs \<^verbatim>\<open>'Scheduled lock triggered'\<close> and invokes the
  lock action, once, and a tick outside the window does neither: the number of lock calls
  and the number of those log lines both grow by the number of in-window ticks, and the
  trace of events is exactly one block per in-window tick. So the lock fires on the tick that
  enters the window, at least once per entry as the specification counts entries, and fires
  and logs again on every further tick inside the window.
\<close>

theorem poll_locks_and_logs_on_every_tick_in_window:
  assumes "poll app ticks = Inr app'"
  shows "lock_calls app' = lock_calls app + length (filter (tick_in_window app) (map fst ticks)) \<and>
         trigger_logs app'
           = trigger_logs app + length (filter (tick_in_window app) (map fst ticks)) \<and>
         events app' = events app @
           concat (map (\<lambda>t. if tick_in_window app (fst t)
                             then [Logged INFO ''Scheduled lock triggered'',
                                   Logged INFO ''Locking workstation'', CallLockWorkStation]
                                  @ (if snd t then [Logged ERROR ''Lock failed: ''] else [])
                             else []) ticks) \<and>
         spec_window_entries False (map (tick_in_window app) (map fst ticks))
           \<le> lock_calls app' - lock_calls app"
proof -
  have c: "lock_calls app' =
      lock_calls app + length (filter (tick_in_window app) (map fst ticks))"
    using assms by (rule poll_calls)
  have t: "trigger_logs app' =
      trigger_logs app + length (filter (tick_in_window app) (map fst ticks))"
    using assms by (rule poll_triggers)
  have e: "events app' = events app @
           concat (map (\<lambda>t. if tick_in_window app (fst t)
                             then [Logged INFO ''Scheduled lock triggered'',
                                   Logged INFO ''Locking workstation'', CallLockWorkStation]
                                  @ (if snd t then [Logged ERROR ''Lock failed: ''] else [])
                             else []) ticks)"
    using assms by (rule poll_events)
  have "spec_window_entries False (map (tick_in_window app) (map fst ticks))
          \<le> length (filter (\<lambda>b. b) (map (tick_in_window app) (map fst ticks)))"
    by (rule spec_window_entries_le)
  also have "\<dots> = length (filter (tick_in_window app) (map fst ticks))"
    by (simp add: filter_map comp_def)
  finally have s: "spec_window_entries False (map (tick_in_window app) (map fst ticks))
           \<le> lock_calls app' - lock_calls app"
    using c by simp
  show ?thesis using c t e s by (intro conjI)
qed

text \<open>
  The definitions that running the controller on concrete ticks unfolds.
\<close>

lemmas controller_defs =
  check_lock_def current_time_def isInWindow_def in_window_flag_def lock_workstation_def
  logging_def init_app_def dt_add_def to_us_def us_per_day_def MAXORDINAL_def
  lock_calls_def trigger_logs_def tick_in_window_def

text \<open>
  Claim C3 asks for exactly one lock action per entry into the window. Counterexample: with
  the default schedule, ticks on Monday at 20:00 and 20:01 are both in the window, which
  is one entry, and the lock action is invoked, and the trigger logged, twice.
\<close>

theorem once_per_entry_counterexample:
  "map_sum id lock_calls
     (poll (init_app DEFAULT_CONFIG) [(at_hm monday 20 0, False), (at_hm monday 20 1, False)])
     = Inr 2 \<and>
   map_sum id trigger_logs
     (poll (init_app DEFAULT_CONFIG) [(at_hm monday 20 0, False), (at_hm monday 20 1, False)])
     = Inr 2 \<and>
   map (tick_in_window (init_app DEFAULT_CONFIG)) [at_hm monday 20 0, at_hm monday 20 1]
     = [True, True] \<and>
   spec_window_entries False [True, True] = 1"
  by (simp add: concrete_defs controller_defs)

text \<open>
  Witness for C3 (amended): ticks at 17:59, 18:00 and 18:01; the last two are in the
  window and each of them logs and locks, the second time with a failing system call.
\<close>

theorem poll_locks_and_logs_on_every_tick_in_window_witness:
  "map_sum id events
     (poll (init_app DEFAULT_CONFIG)
        [(at_hm monday 17 59, False), (at_hm monday 18 0, False), (at_hm monday 18 1, True)])
     = Inr [Logged INFO ''Scheduled lock triggered'', Logged INFO ''Locking workstation'',
            CallLockWorkStation,
            Logged INFO ''Scheduled lock triggered'', Logged INFO ''Locking workstation'',
            CallLockWorkStation, Logged ERROR ''Lock failed: ''] \<and>
   map_sum id lock_calls
     (poll (init_app DEFAULT_CONFIG)
        [(at_hm monday 17 59, False), (at_hm monday 18 0, False), (at_hm monday 18 1, True)])
     = Inr 2 \<and>
   map_sum id trigger_logs
     (poll (init_app DEFAULT_CONFIG)
        [(at_hm monday 17 59, False), (at_hm monday 18 0, False), (at_hm monday 18 1, True)])
     = Inr 2"
proof -
  obtain app' where p: "poll (init_app DEFAULT_CONFIG)
      [(at_hm monday 17 59, False), (at_hm monday 18 0, False), (at_hm monday 18 1, True)]
      = Inr app'"
    by (simp add: concrete_defs controller_defs)
  have w: "tick_in_window (init_app DEFAULT_CONFIG) (at_hm monday 17 59) = False"
    "tick_in_window (init_app DEFAULT_CONFIG) (at_hm monday 18 0) = True"
    "tick_in_window (init_app DEFAULT_CONFIG) (at_hm monday 18 1) = True"
    by (simp_all add: concrete_defs controller_defs)
  have i: "events (init_app DEFAULT_CONFIG) = []"
    "lock_calls (init_app DEFAULT_CONFIG) = 0" "trigger_logs (init_app DEFAULT_CONFIG) = 0"
    by (simp_all add: init_app_def lock_calls_def trigger_logs_def)
  have r: "lock_calls app' = 2 \<and> trigger_logs app' = 2 \<and>
      events app' =
        [Logged INFO ''Scheduled lock triggered'', Logged INFO ''Locking workstation'',
         CallLockWorkStation,
         Logged INFO ''Scheduled lock triggered'', Logged INFO ''Locking workstation'',
         CallLockWorkStation, Logged ERROR ''Lock failed: '']"
    using poll_locks_and_logs_on_every_tick_in_window [OF p]
    by (simp add: w i)
  show ?thesis unfolding p using r by simp
qed

section \<open>Arithmetic of datetimes\<close>

text \<open>
  Splitting a number of microseconds into day, second and microsecond, and the seconds of
  a day into hour, minute and second, gives back the fields it was built from.
\<close>

lemma day_part:
  fixes x h m s u :: int
  assumes "0 \<le> h" "h \<le> 23" "0 \<le> m" "m \<le> 59" "0 \<le> s" "s \<le> 59" "0 \<le> u" "u \<le> 999999"
  shows "(x * 86400000000 + ((h * 60 + m) * 60 + s) * 1000000 + u) div 86400000000 = x"
    and "(x * 86400000000 + ((h * 60 + m) * 60 + s) * 1000000 + u) mod 86400000000
           = ((h * 60 + m) * 60 + s) * 1000000 + u"
proof -
  have a: "x * 86400000000 + ((h * 60 + m) * 60 + s) * 1000000 + u
             = 86400000000 * x + (((h * 60 + m) * 60 + s) * 1000000 + u)"
    by simp
  have b: "0 \<le> ((h * 60 + m) * 60 + s) * 1000000 + u"
    using assms by simp
  have c: "((h * 60 + m) * 60 + s) * 1000000 + u < 86400000000"
    using assms by simp
  show "(x * 86400000000 + ((h * 60 + m) * 60 + s) * 1000000 + u) div 86400000000 = x"
    using a b c by (rule int_div_pos_eq)
  show "(x * 86400000000 + ((h * 60 + m) * 60 + s) * 1000000 + u) mod 86400000000
           = ((h * 60 + m) * 60 + s) * 1000000 + u"
    using a b c by (rule int_mod_pos_eq)
qed

lemma second_part:
  fixes h m s u :: int
  assumes "0 \<le> h" "0 \<le> m" "0 \<le> s" "0 \<le> u" "u \<le> 999999"
  shows "(((h * 60 + m) * 60 + s) * 1000000 + u) div 1000000 = (h * 60 + m) * 60 + s"
    and "(((h * 60 + m) * 60 + s) * 1000000 + u) mod 1000000 = u"
proof -
  have a: "((h * 60 + m) * 60 + s) * 1000000 + u = 1000000 * ((h * 60 + m) * 60 + s) + u"
    by simp
  have c: "u < 1000000" using assms by simp
  show "(((h * 60 + m) * 60 + s) * 1000000 + u) div 1000000 = (h * 60 + m) * 60 + s"
    using a \<open>0 \<le> u\<close> c by (rule int_div_pos_eq)
  show "(((h * 60 + m) * 60 + s) * 1000000 + u) mod 1000000 = u"
    using a \<open>0 \<le> u\<close> c by (rule int_mod_pos_eq)
qed

lemma hms_part:
  fixes h m s :: int
  assumes "0 \<le> m" "m \<le> 59" "0 \<le> s" "s \<le> 59"
  shows "((h * 60 + m) * 60 + s) div 3600 = h"
    and "(((h * 60 + m) * 60 + s) mod 3600) div 60 = m"
    and "(((h * 60 + m) * 60 + s) mod 3600) mod 60 = s"
proof -
  have a: "(h * 60 + m) * 60 + s = 3600 * h + (m * 60 + s)" by simp
  have b: "0 \<le> m * 60 + s" using assms by simp
  have c: "m * 60 + s < 3600" using assms by simp
  show "((h * 60 + m) * 60 + s) div 3600 = h"
    using a b c by (rule int_div_pos_eq)
  have r: "((h * 60 + m) * 60 + s) mod 3600 = m * 60 + s"
    using a b c by (rule int_mod_pos_eq)
  have d: "m * 60 + s = 60 * m + s" by simp
  have e: "s < 60" using assms by simp
  show "(((h * 60 + m) * 60 + s) mod 3600) div 60 = m"
    unfolding r using d \<open>0 \<le> s\<close> e by (rule int_div_pos_eq)
  show "(((h * 60 + m) * 60 + s) mod 3600) mod 60 = s"
    unfolding r using d \<open>0 \<le> s\<close> e by (rule int_mod_pos_eq)
qed

text \<open>
  Adding a duration to a datetime yields the datetime whose microsecond count is the sum,
  when that one has a valid time of day; the only failure is a day out of range.
\<close>

lemma dt_add_exact:
  assumes v: "valid_time (tod e)" and eq: "to_us d + td = to_us e"
  shows "dt_add d td = (if 0 < ordinal e \<and> ordinal e \<le> MAXORDINAL then Inr e else Inl OverflowError)"
proof -
  define h m s u where "h = hour (tod e)" and "m = minute (tod e)"
    and "s = second (tod e)" and "u = microsecond (tod e)"
  have r: "0 \<le> h" "h \<le> 23" "0 \<le> m" "m \<le> 59" "0 \<le> s" "s \<le> 59" "0 \<le> u" "u \<le> 999999"
    using v by (simp_all add: valid_time_def h_def m_def s_def u_def)
  have t: "to_us d + td = ordinal e * 86400000000 + ((h * 60 + m) * 60 + s) * 1000000 + u"
    unfolding eq by (simp add: to_us_def us_per_day_def h_def m_def s_def u_def)
  have e: "\<lparr>ordinal = ordinal e, tod = \<lparr>hour = h, minute = m, second = s, microsecond = u\<rparr>\<rparr> = e"
    by (simp add: h_def m_def s_def u_def)
  have "dt_add d td =
      (if 0 < ordinal e \<and> ordinal e \<le> MAXORDINAL
       then Inr \<lparr>ordinal = ordinal e, tod = \<lparr>hour = h, minute = m, second = s, microsecond = u\<rparr>\<rparr>
       else Inl OverflowError)"
    unfolding dt_add_def Let_def t us_per_day_def
    by (simp only: day_part [OF r] second_part [OF r(1,3,5,7,8)] hms_part [OF r(3,4,5,6)])
  then show ?thesis by (simp only: e)
qed

text \<open>A remainder by a positive number lies between zero and that number less one.\<close>

lemma mod_le_pred:
  fixes a b :: int
  assumes "0 < b"
  shows "0 \<le> a mod b" and "a mod b \<le> b - 1"
proof -
  show "0 \<le> a mod b" using assms by simp
  have "a mod b < b" using assms by simp
  then show "a mod b \<le> b - 1" by simp
qed

text \<open>Whatever \<open>dt_add\<close> returns is a valid datetime.\<close>

lemma dt_add_valid:
  assumes "dt_add d td = Inr e"
  shows "valid_datetime e"
proof -
  define rem where "rem = (to_us d + td) mod 86400000000"
  define secs where "secs = rem div 1000000"
  define dys where "dys = (to_us d + td) div 86400000000"
  have rem: "0 \<le> rem" "rem < 86400000000" by (simp_all add: rem_def)
  have secs: "0 \<le> secs" "secs < 86400"
    using rem unfolding secs_def by linarith+
  have hr: "0 \<le> secs div 3600" "secs div 3600 \<le> 23"
    using secs by linarith+
  have m1: "0 \<le> secs mod 3600" "secs mod 3600 \<le> 3599"
    using mod_le_pred [of 3600 secs] by simp_all
  define sm where "sm = secs mod 3600"
  have mi: "0 \<le> sm div 60" "sm div 60 \<le> 59"
    using m1 unfolding sm_def [symmetric] by linarith+
  have se: "0 \<le> sm mod 60" "sm mod 60 \<le> 59"
    using mod_le_pred [of 60 sm] by simp_all
  have us: "0 \<le> rem mod 1000000" "rem mod 1000000 \<le> 999999"
    using mod_le_pred [of 1000000 rem] by simp_all
  have c: "dt_add d td =
      (if 0 < dys \<and> dys \<le> MAXORDINAL
       then Inr \<lparr>ordinal = dys,
                 tod = \<lparr>hour = secs div 3600, minute = sm div 60,
                        second = sm mod 60, microsecond = rem mod 1000000\<rparr>\<rparr>
       else Inl OverflowError)"
    by (simp only: dt_add_def Let_def us_per_day_def rem_def secs_def dys_def sm_def)
  have o: "0 < dys \<and> dys \<le> MAXORDINAL"
    using assms unfolding c by (simp split: if_splits)
  have e: "\<lparr>ordinal = dys,
                 tod = \<lparr>hour = secs div 3600, minute = sm div 60,
                        second = sm mod 60, microsecond = rem mod 1000000\<rparr>\<rparr> = e"
    using assms o unfolding c by simp
  have vd: "valid_datetime \<lparr>ordinal = dys,
                 tod = \<lparr>hour = secs div 3600, minute = sm div 60,
                        second = sm mod 60, microsecond = rem mod 1000000\<rparr>\<rparr>"
    using o hr mi se us by (simp add: valid_datetime_def valid_time_def)
  show ?thesis using vd unfolding e .
qed

section \<open>The drift-corrected clock: claim C7\<close>

text \<open>
  Adding the difference to a datetime \<open>e\<close> back to the subtrahend gives \<open>e\<close>, for
  every \<open>e\<close> that a datetime addition produced.
\<close>

lemma dt_add_dt_sub:
  assumes "dt_add u off = Inr e"
  shows "dt_add x (dt_sub e x) = Inr e"
proof -
  have v: "valid_datetime e" using assms by (rule dt_add_valid)
  have "to_us x + dt_sub e x = to_us e" by (simp add: dt_sub_def)
  with v have "dt_add x (dt_sub e x) =
      (if 0 < ordinal e \<and> ordinal e \<le> MAXORDINAL then Inr e else Inl OverflowError)"
    by (intro dt_add_exact) (simp_all add: valid_datetime_def)
  then show ?thesis using v by (simp add: valid_datetime_def)
qed

text \<open>
  Whatever the body of the \<^verbatim>\<open>try\<close> raises, \<open>sync_time\<close> returns: the state with one more
  line in the log.
\<close>

lemma sync_time_raised:
  "sync_try strptime utcoffset app sys_local r = Inl x \<Longrightarrow>
     sync_time strptime utcoffset app sys_local r = logging ERROR ''Time sync failed: '' app"
  by (simp add: sync_time_def)

lemma sync_try_raises:
  assumes "r = Inl x \<or>
           (r = Inr (Some s) \<and> s \<noteq> [] \<and>
            (strptime s = Inl y \<or> (strptime s = Inr dt_utc \<and> dt_add dt_utc utcoffset = Inl z)))"
  shows "\<exists>w. sync_try strptime utcoffset app sys_local r = Inl w"
  using assms by (auto simp: sync_try_def)

text \<open>
  Claim C7, amended. When the request raises, or a non-empty \<^verbatim>\<open>Date\<close> header cannot be
  parsed or converted to local time, the offset is left unchanged, one error line is logged,
  nothing is raised (\<open>sync_time\<close> returns a state), and the clock read afterwards applies
  the old offset. When the response has no \<^verbatim>\<open>Date\<close> header or an empty one, the state is
  left as it was: the old offset, and no line in the log. When the refresh succeeds with
  external instant \<open>dt_local\<close> fetched at local instant \<open>sys_local\<close>, the offset becomes
  their difference and the clock read at \<open>sys_local\<close> is \<open>dt_local\<close>.
\<close>

theorem sync_time_spec:
  "(r = Inl x \<or>
    (r = Inr (Some s) \<and> s \<noteq> [] \<and>
     (strptime s = Inl y \<or> (strptime s = Inr dt_utc \<and> dt_add dt_utc utcoffset = Inl z))) \<longrightarrow>
      offset (sync_time strptime utcoffset app sys_local r) = offset app \<and>
      events (sync_time strptime utcoffset app sys_local r)
        = events app @ [Logged ERROR ''Time sync failed: ''] \<and>
      current_time (sync_time strptime utcoffset app sys_local r) later
        = dt_add later (offset app)) \<and>
   (r = Inr None \<or> r = Inr (Some []) \<longrightarrow>
      sync_time strptime utcoffset app sys_local r = app) \<and>
   (r = Inr (Some s) \<and> s \<noteq> [] \<and> strptime s = Inr dt_utc \<and>
    dt_add dt_utc utcoffset = Inr dt_local \<longrightarrow>
      offset (sync_time strptime utcoffset app sys_local r) = dt_sub dt_local sys_local \<and>
      current_time (sync_time strptime utcoffset app sys_local r) sys_local = Inr dt_local)"
proof (intro conjI impI)
  assume a: "r = Inl x \<or>
    (r = Inr (Some s) \<and> s \<noteq> [] \<and>
     (strptime s = Inl y \<or> (strptime s = Inr dt_utc \<and> dt_add dt_utc utcoffset = Inl z)))"
  from a have "\<exists>w. sync_try strptime utcoffset app sys_local r = Inl w"
    by (rule sync_try_raises)
  then obtain w where "sync_try strptime utcoffset app sys_local r = Inl w" by blast
  then have s: "sync_time strptime utcoffset app sys_local r
      = logging ERROR ''Time sync failed: '' app"
    by (rule sync_time_raised)
  show "offset (sync_time strptime utcoffset app sys_local r) = offset app"
    by (simp add: s logging_def)
  show "events (sync_time strptime utcoffset app sys_local r)
      = events app @ [Logged ERROR ''Time sync failed: '']"
    by (simp add: s logging_def)
  show "current_time (sync_time strptime utcoffset app sys_local r) later
      = dt_add later (offset app)"
    by (simp add: s logging_def current_time_def)
next
  assume "r = Inr None \<or> r = Inr (Some [])"
  then show "sync_time strptime utcoffset app sys_local r = app"
    by (auto simp: sync_time_def sync_try_def)
next
  assume a: "r = Inr (Some s) \<and> s \<noteq> [] \<and> strptime s = Inr dt_utc \<and>
    dt_add dt_utc utcoffset = Inr dt_local"
  then have s: "sync_time strptime utcoffset app sys_local r =
      logging DEBUG ''Time offset (google_local - sys_local): ''
        (app\<lparr>offset := dt_sub dt_local sys_local\<rparr>)"
    by (simp add: sync_time_def sync_try_def)
  show o: "offset (sync_time strptime utcoffset app sys_local r) = dt_sub dt_local sys_local"
    by (simp add: s logging_def)
  have "dt_add sys_local (dt_sub dt_local sys_local) = Inr dt_local"
    using a by (intro dt_add_dt_sub [of dt_utc utcoffset]) simp
  then show "current_time (sync_time strptime utcoffset app sys_local r) sys_local = Inr dt_local"
    by (simp add: current_time_def o)
qed

text \<open>
  The definitions that evaluating a concrete refresh unfolds.
\<close>

lemmas sync_defs =
  sync_time_def sync_try_def sample_strptime_def logging_def init_app_def current_time_def
  dt_add_def dt_sub_def to_us_def us_per_day_def MAXORDINAL_def

text \<open>
  Claim C7 says every failed refresh is logged. Counterexample: a response whose
  \<^verbatim>\<open>Date\<close> header is the empty string, which the parser rejects, leaves the offset
  unchanged but the log empty, since line 350 skips a header that is not truthy.
\<close>

theorem silent_failure_counterexample:
  "sample_strptime [] = Inl ValueError \<and>
   sync_time sample_strptime 0 (init_app DEFAULT_CONFIG) (at_hm monday 12 0) (Inr (Some []))
     = init_app DEFAULT_CONFIG \<and>
   events (init_app DEFAULT_CONFIG) = []"
  by (simp add: sync_defs)

text \<open>
  Witness for C7 (amended), one hour east of Greenwich with a local clock two minutes
  slow: a request that raises, an unparseable header, a missing header, and a header giving
  13:00 local time at the local reading 12:58.
\<close>

theorem sync_time_spec_witness:
  "events (sync_time sample_strptime 3600000000 (init_app DEFAULT_CONFIG) (at_hm monday 12 58)
             (Inl RequestException))
     = [Logged ERROR ''Time sync failed: ''] \<and>
   offset (sync_time sample_strptime 3600000000 (init_app DEFAULT_CONFIG) (at_hm monday 12 58)
             (Inl RequestException)) = 0 \<and>
   events (sync_time sample_strptime 3600000000 (init_app DEFAULT_CONFIG) (at_hm monday 12 58)
             (Inr (Some ''yesterday'')))
     = [Logged ERROR ''Time sync failed: ''] \<and>
   sync_time sample_strptime 3600000000 (init_app DEFAULT_CONFIG) (at_hm monday 12 58) (Inr None)
     = init_app DEFAULT_CONFIG \<and>
   offset (sync_time sample_strptime 3600000000 (init_app DEFAULT_CONFIG) (at_hm monday 12 58)
             (Inr (Some ''Mon, 01 Jan 2024 12:00:00 GMT''))) = 120000000 \<and>
   current_time
     (sync_time sample_strptime 3600000000 (init_app DEFAULT_CONFIG) (at_hm monday 12 58)
        (Inr (Some ''Mon, 01 Jan 2024 12:00:00 GMT'')))
     (at_hm monday 12 58) = Inr (at_hm monday 13 0)"
proof -
  have p: "sample_strptime ''yesterday'' = Inl ValueError"
    "sample_strptime ''Mon, 01 Jan 2024 12:00:00 GMT'' = Inr (at_hm monday 12 0)"
    by (simp_all add: sample_strptime_def)
  have z: "dt_add (at_hm monday 12 0) 3600000000 = Inr (at_hm monday 13 0)"
    by (simp add: concrete_defs sync_defs)
  have d: "dt_sub (at_hm monday 13 0) (at_hm monday 12 58) = 120000000"
    by (simp add: concrete_defs sync_defs)
  show ?thesis
    using sync_time_spec [of "Inl RequestException" RequestException "[]" sample_strptime
        ValueError "at_hm monday 12 0" 3600000000 OverflowError "init_app DEFAULT_CONFIG"
        "at_hm monday 12 58" "at_hm monday 12 58" "at_hm monday 13 0"]
      sync_time_spec [of "Inr (Some ''yesterday'')" RequestException "''yesterday''"
        sample_strptime ValueError "at_hm monday 12 0" 3600000000 OverflowError
        "init_app DEFAULT_CONFIG" "at_hm monday 12 58" "at_hm monday 12 58" "at_hm monday 13 0"]
      sync_time_spec [of "Inr None" RequestException "[]" sample_strptime
        ValueError "at_hm monday 12 0" 3600000000 OverflowError "init_app DEFAULT_CONFIG"
        "at_hm monday 12 58" "at_hm monday 12 58" "at_hm monday 13 0"]
      sync_time_spec [of "Inr (Some ''Mon, 01 Jan 2024 12:00:00 GMT'')" RequestException
        "''Mon, 01 Jan 2024 12:00:00 GMT''" sample_strptime
        ValueError "at_hm monday 12 0" 3600000000 OverflowError "init_app DEFAULT_CONFIG"
        "at_hm monday 12 58" "at_hm monday 12 58" "at_hm monday 13 0"]
      p z d
    by (simp add: init_app_def)
qed

section \<open>The loop of the next transition\<close>

text \<open>
  Shifting by whole days changes the ordinal only.
\<close>

lemma dt_add_days:
  assumes "valid_time (tod d)"
  shows "dt_add d (timedelta_days i) =
     (if 0 < ordinal d + i \<and> ordinal d + i \<le> MAXORDINAL
      then Inr (d\<lparr>ordinal := ordinal d + i\<rparr>) else Inl OverflowError)"
proof -
  have "to_us d + timedelta_days i = to_us (d\<lparr>ordinal := ordinal d + i\<rparr>)"
    by (simp add: to_us_def timedelta_days_def distrib_right)
  moreover have "valid_time (tod (d\<lparr>ordinal := ordinal d + i\<rparr>))"
    using assms by simp
  ultimately have "dt_add d (timedelta_days i) =
     (if 0 < ordinal (d\<lparr>ordinal := ordinal d + i\<rparr>)
        \<and> ordinal (d\<lparr>ordinal := ordinal d + i\<rparr>) \<le> MAXORDINAL
      then Inr (d\<lparr>ordinal := ordinal d + i\<rparr>) else Inl OverflowError)"
    by (intro dt_add_exact)
  then show ?thesis by simp
qed

text \<open>
  Within the seven iterations of the loop, the test \<^verbatim>\<open>d == now.weekday()\<close> holds in the
  first one only.
\<close>

lemma same_weekday_iff:
  assumes "0 \<le> i" "i \<le> 6"
  shows "(weekday now + i) mod 7 = weekday now \<longleftrightarrow> i = 0"
proof -
  define w where "w = weekday now"
  have w: "0 \<le> w" "w < 7" by (simp_all add: w_def weekday_def)
  have "(w + i) mod 7 = w \<longleftrightarrow> i = 0"
  proof (cases "w + i < 7")
    case True
    then have "(w + i) mod 7 = w + i" using w assms by simp
    then show ?thesis by simp
  next
    case False
    have "w + i = 7 * 1 + (w + i - 7)" by simp
    moreover have "0 \<le> w + i - 7" using False by simp
    moreover have "w + i - 7 < 7" using w assms by simp
    ultimately have "(w + i) mod 7 = w + i - 7" by (rule int_mod_pos_eq)
    then show ?thesis using False w assms by auto
  qed
  then show ?thesis by (simp add: w_def)
qed

lemma mk_dtime_Inr:
  assumes "mk_dtime h m = Inr t"
  shows "t = \<lparr>hour = h, minute = m, second = 0, microsecond = 0\<rparr>"
    and "0 \<le> h \<and> h \<le> 23 \<and> 0 \<le> m \<and> m \<le> 59"
    and "valid_time t"
  using assms by (auto simp: mk_dtime_def valid_time_def split: if_splits)

text \<open>
  The candidate of iteration \<open>i\<close>: the target time of day, \<open>i\<close> days on, and one more day
  under the condition of lines 250-253.
\<close>

lemma candidate_shape:
  assumes v: "valid_time (tod now)"
    and l: "mk_dtime (fst (lock_time cfg)) (snd (lock_time cfg)) = Inr lock_t"
    and u: "mk_dtime (fst (unlock_time cfg)) (snd (unlock_time cfg)) = Inr unlock_t"
    and i: "0 \<le> i" "i \<le> 6"
    and c: "candidate cfg now in_window lock_t unlock_t i = Inr b"
  shows "tod b = (if in_window then unlock_t else lock_t)"
    and "ordinal b = ordinal now + i +
           (if in_window \<and> time_key unlock_t \<le> time_key lock_t \<and> i = 0
               \<and> time_key unlock_t \<le> time_key (tod now) then 1 else 0)"
proof -
  define target where "target = (if in_window then unlock_t else lock_t)"
  have vt: "valid_time target"
    using mk_dtime_Inr(3) [OF l] mk_dtime_Inr(3) [OF u] by (simp add: target_def)
  have rep: "replace_hm d
       (if \<not> in_window then fst (lock_time cfg) else fst (unlock_time cfg))
       (if \<not> in_window then snd (lock_time cfg) else snd (unlock_time cfg))
       = Inr (d\<lparr>tod := target\<rparr>)" for d
    using mk_dtime_Inr(1,2) [OF l] mk_dtime_Inr(1,2) [OF u]
    by (simp add: replace_hm_def target_def fits_c_int_def)
  obtain shifted where s: "dt_add now (timedelta_days i) = Inr shifted"
    using c by (cases "dt_add now (timedelta_days i)") (simp_all add: candidate_def)
  have sh: "shifted = now\<lparr>ordinal := ordinal now + i\<rparr>"
    using s unfolding dt_add_days [OF v] by (simp split: if_splits)
  define base where "base = shifted\<lparr>tod := target\<rparr>"
  have vb: "valid_time (tod base)" using vt by (simp add: base_def)
  have ob: "ordinal base = ordinal now + i" by (simp add: base_def sh)
  define adv where "adv \<longleftrightarrow> in_window \<and> time_key unlock_t \<le> time_key lock_t \<and> i = 0
               \<and> time_key unlock_t \<le> time_key (tod now)"
  have c2: "(if adv then dt_add base (timedelta_days 1) else Inr base) = Inr b"
    using c s i by (auto simp: candidate_def rep base_def adv_def same_weekday_iff
        split: if_splits)
  have b: "b = (if adv then base\<lparr>ordinal := ordinal base + 1\<rparr> else base)"
    using c2 unfolding dt_add_days [OF vb] by (simp split: if_splits)
  show "tod b = (if in_window then unlock_t else lock_t)"
    by (simp add: b base_def target_def)
  show "ordinal b = ordinal now + i +
           (if in_window \<and> time_key unlock_t \<le> time_key lock_t \<and> i = 0
               \<and> time_key unlock_t \<le> time_key (tod now) then 1 else 0)"
    using ob by (simp add: b adv_def)
qed

text \<open>
  The loop returns the candidate of the first enabled day whose candidate is after
  \<^verbatim>\<open>now\<close>.
\<close>

lemma scan_first:
  assumes "sorted_wrt (<) js" and "scan cfg now in_window lock_t unlock_t js = Inr (Some r)"
  shows "\<exists>i\<in>set js. (weekday now + i) mod 7 \<in> set (days cfg) \<and>
           candidate cfg now in_window lock_t unlock_t i = Inr r \<and> dt_key now < dt_key r \<and>
           (\<forall>j\<in>set js. j < i \<and> (weekday now + j) mod 7 \<in> set (days cfg) \<longrightarrow>
              (\<exists>b. candidate cfg now in_window lock_t unlock_t j = Inr b \<and>
                   dt_key b \<le> dt_key now))"
  using assms
proof (induction js)
  case Nil
  then show ?case by simp
next
  case (Cons k ks)
  have gt: "\<forall>x\<in>set ks. k < x" and srt: "sorted_wrt (<) ks"
    using Cons.prems(1) by simp_all
  show ?case
  proof (cases "(weekday now + k) mod 7 \<in> set (days cfg)")
    case False
    then have "scan cfg now in_window lock_t unlock_t ks = Inr (Some r)"
      using Cons.prems(2) by simp
    from Cons.IH [OF srt this] obtain i where
      i: "i \<in> set ks" "(weekday now + i) mod 7 \<in> set (days cfg)"
         "candidate cfg now in_window lock_t unlock_t i = Inr r" "dt_key now < dt_key r"
         "\<forall>j\<in>set ks. j < i \<and> (weekday now + j) mod 7 \<in> set (days cfg) \<longrightarrow>
              (\<exists>b. candidate cfg now in_window lock_t unlock_t j = Inr b \<and>
                   dt_key b \<le> dt_key now)"
      by blast
    show ?thesis
      using i False by (intro bexI [of _ i]) auto
  next
    case True
    then obtain b where b: "candidate cfg now in_window lock_t unlock_t k = Inr b"
      using Cons.prems(2) by (cases "candidate cfg now in_window lock_t unlock_t k") simp_all
    show ?thesis
    proof (cases "dt_key now < dt_key b")
      case after: True
      then have "r = b" using Cons.prems(2) True b by simp
      then show ?thesis
        using True b after gt by (intro bexI [of _ k]) auto
    next
      case notafter: False
      then have "scan cfg now in_window lock_t unlock_t ks = Inr (Some r)"
        using Cons.prems(2) True b by simp
      from Cons.IH [OF srt this] obtain i where
        i: "i \<in> set ks" "(weekday now + i) mod 7 \<in> set (days cfg)"
           "candidate cfg now in_window lock_t unlock_t i = Inr r" "dt_key now < dt_key r"
           "\<forall>j\<in>set ks. j < i \<and> (weekday now + j) mod 7 \<in> set (days cfg) \<longrightarrow>
                (\<exists>b. candidate cfg now in_window lock_t unlock_t j = Inr b \<and>
                     dt_key b \<le> dt_key now)"
        by blast
      have "dt_key b \<le> dt_key now" using notafter by (simp add: not_less)
      then show ?thesis
        using i b by (intro bexI [of _ i]) auto
    qed
  qed
qed

section \<open>The next transition: claims C4 and C5\<close>

text \<open>
  The values that \<^verbatim>\<open>range(7)\<close> runs through.
\<close>

lemma range7_mem:
  "i \<in> set [0, 1, 2, 3, 4, 5, 6 :: int] \<longleftrightarrow> 0 \<le> i \<and> i \<le> 6"
  by auto

lemma next_transition_scan:
  assumes l: "mk_dtime (fst (lock_time cfg)) (snd (lock_time cfg)) = Inr lock_t"
    and u: "mk_dtime (fst (unlock_time cfg)) (snd (unlock_time cfg)) = Inr unlock_t"
    and r: "next_transition cfg now = Inr (Some r)"
  shows "scan cfg now (in_window_flag lock_t unlock_t (tod now)) lock_t unlock_t
           [0, 1, 2, 3, 4, 5, 6] = Inr (Some r)"
  using r unfolding next_transition_def l u
  by (simp del: scan.simps split: if_splits)

text \<open>
  The countdown decides the window with the same test as \<open>check_lock\<close>: past the guard,
  the flag it hands to the loop is the value of \<open>isInWindow\<close>.
\<close>

lemma next_transition_uses_isInWindow:
  assumes "enabled cfg" and "weekday now \<in> set (days cfg)"
    and l: "mk_dtime (fst (lock_time cfg)) (snd (lock_time cfg)) = Inr lock_t"
    and u: "mk_dtime (fst (unlock_time cfg)) (snd (unlock_time cfg)) = Inr unlock_t"
  shows "isInWindow cfg now = Inr (in_window_flag lock_t unlock_t (tod now))"
    and "next_transition cfg now =
           scan cfg now (in_window_flag lock_t unlock_t (tod now)) lock_t unlock_t
             [0, 1, 2, 3, 4, 5, 6]"
  using assms(1,2) unfolding isInWindow_def next_transition_def l u
  by (simp_all del: scan.simps)

lemma next_transition_first_candidate:
  assumes v: "valid_time (tod now)"
    and l: "mk_dtime (fst (lock_time cfg)) (snd (lock_time cfg)) = Inr lock_t"
    and u: "mk_dtime (fst (unlock_time cfg)) (snd (unlock_time cfg)) = Inr unlock_t"
    and r: "next_transition cfg now = Inr (Some r)"
  shows "\<exists>i. 0 \<le> i \<and> i \<le> 6 \<and> (weekday now + i) mod 7 \<in> set (days cfg) \<and>
           candidate cfg now (in_window_flag lock_t unlock_t (tod now)) lock_t unlock_t i = Inr r \<and>
           (\<forall>j. 0 \<le> j \<and> j < i \<and> (weekday now + j) mod 7 \<in> set (days cfg) \<longrightarrow>
              (\<exists>b. candidate cfg now (in_window_flag lock_t unlock_t (tod now)) lock_t unlock_t j
                     = Inr b \<and> dt_key b \<le> dt_key now)) \<and>
           tod r = (if in_window_flag lock_t unlock_t (tod now) then unlock_t else lock_t) \<and>
           ordinal r = ordinal now + i +
             (if in_window_flag lock_t unlock_t (tod now) \<and> time_key unlock_t \<le> time_key lock_t
                 \<and> i = 0 \<and> time_key unlock_t \<le> time_key (tod now) then 1 else 0)"
proof -
  define inw where "inw = in_window_flag lock_t unlock_t (tod now)"
  have s: "scan cfg now inw lock_t unlock_t [0, 1, 2, 3, 4, 5, 6] = Inr (Some r)"
    unfolding inw_def using l u r by (rule next_transition_scan)
  have srt: "sorted_wrt (<) [0, 1, 2, 3, 4, 5, 6 :: int]" by simp
  from scan_first [OF srt s] obtain i where
    i: "i \<in> set [0, 1, 2, 3, 4, 5, 6 :: int]" "(weekday now + i) mod 7 \<in> set (days cfg)"
       "candidate cfg now inw lock_t unlock_t i = Inr r"
       "\<forall>j\<in>set [0, 1, 2, 3, 4, 5, 6 :: int].
           j < i \<and> (weekday now + j) mod 7 \<in> set (days cfg) \<longrightarrow>
           (\<exists>b. candidate cfg now inw lock_t unlock_t j = Inr b \<and> dt_key b \<le> dt_key now)"
    by blast
  have i06: "0 \<le> i" "i \<le> 6" using i(1) unfolding range7_mem by simp_all
  have first: "\<forall>j. 0 \<le> j \<and> j < i \<and> (weekday now + j) mod 7 \<in> set (days cfg) \<longrightarrow>
      (\<exists>b. candidate cfg now inw lock_t unlock_t j = Inr b \<and> dt_key b \<le> dt_key now)"
  proof (intro allI impI)
    fix j
    assume j: "0 \<le> j \<and> j < i \<and> (weekday now + j) mod 7 \<in> set (days cfg)"
    then have "j \<in> set [0, 1, 2, 3, 4, 5, 6 :: int]"
      unfolding range7_mem using i06 by simp
    then show "\<exists>b. candidate cfg now inw lock_t unlock_t j = Inr b \<and> dt_key b \<le> dt_key now"
      using i(4) j by blast
  qed
  have shape: "tod r = (if inw then unlock_t else lock_t)"
    "ordinal r = ordinal now + i +
       (if inw \<and> time_key unlock_t \<le> time_key lock_t \<and> i = 0
           \<and> time_key unlock_t \<le> time_key (tod now) then 1 else 0)"
    using candidate_shape [OF v l u i06 i(3)] by simp_all
  show ?thesis
    unfolding inw_def [symmetric]
    using i06 i(2) i(3) first shape by blast
qed

text \<open>
  A datetime with both fields set, and when it is after \<open>now\<close>.
\<close>

lemma datetime_updates:
  "d\<lparr>ordinal := k, tod := t\<rparr> = \<lparr>ordinal = k, tod = t\<rparr>"
  by (cases d) simp

lemma dt_key_less_iff:
  "dt_key now < dt_key \<lparr>ordinal = k, tod = t\<rparr> \<longleftrightarrow>
     ordinal now < k \<or> (ordinal now = k \<and> time_key (tod now) < time_key t)"
  by (auto simp: dt_key_def)

text \<open>
  The candidate of iteration \<open>i\<close>, computed: no step of it raises when \<open>now\<close> is valid
  and at least six days before the last day of year 9999.
\<close>

lemma candidate_value:
  assumes v: "valid_datetime now" and bound: "ordinal now + 6 \<le> MAXORDINAL"
    and l: "mk_dtime (fst (lock_time cfg)) (snd (lock_time cfg)) = Inr lock_t"
    and u: "mk_dtime (fst (unlock_time cfg)) (snd (unlock_time cfg)) = Inr unlock_t"
    and i: "0 \<le> i" "i \<le> 6"
  shows "candidate cfg now in_window lock_t unlock_t i =
     Inr \<lparr>ordinal = ordinal now + i +
             (if in_window \<and> time_key unlock_t \<le> time_key lock_t \<and> i = 0
                 \<and> time_key unlock_t \<le> time_key (tod now) then 1 else 0),
          tod = (if in_window then unlock_t else lock_t)\<rparr>"
proof -
  define target where "target = (if in_window then unlock_t else lock_t)"
  define adv where "adv \<longleftrightarrow> in_window \<and> time_key unlock_t \<le> time_key lock_t \<and> i = 0
               \<and> time_key unlock_t \<le> time_key (tod now)"
  have vn: "valid_time (tod now)" and pos: "0 < ordinal now"
    using v by (simp_all add: valid_datetime_def)
  have vt: "valid_time target"
    using mk_dtime_Inr(3) [OF l] mk_dtime_Inr(3) [OF u] by (simp add: target_def)
  have rep: "replace_hm d
       (if \<not> in_window then fst (lock_time cfg) else fst (unlock_time cfg))
       (if \<not> in_window then snd (lock_time cfg) else snd (unlock_time cfg))
       = Inr (d\<lparr>tod := target\<rparr>)" for d
    using mk_dtime_Inr(1,2) [OF l] mk_dtime_Inr(1,2) [OF u]
    by (simp add: replace_hm_def target_def fits_c_int_def)
  have s: "dt_add now (timedelta_days i) = Inr (now\<lparr>ordinal := ordinal now + i\<rparr>)"
    unfolding dt_add_days [OF vn] using pos bound i by simp
  define base where "base = now\<lparr>ordinal := ordinal now + i, tod := target\<rparr>"
  have vb: "valid_time (tod base)" using vt by (simp add: base_def)
  have ob: "ordinal base = ordinal now + i" by (simp add: base_def)
  have a: "dt_add base (timedelta_days 1) = Inr (base\<lparr>ordinal := ordinal base + 1\<rparr>)"
    if "i = 0"
    unfolding dt_add_days [OF vb] using pos bound that by (simp add: ob)
  have c: "candidate cfg now in_window lock_t unlock_t i =
      (if adv then dt_add base (timedelta_days 1) else Inr base)"
    using i by (simp add: candidate_def s rep base_def adv_def same_weekday_iff)
  have "candidate cfg now in_window lock_t unlock_t i =
      Inr (base\<lparr>ordinal := ordinal now + i + (if adv then 1 else 0)\<rparr>)"
  proof (cases adv)
    case True
    then have "i = 0" by (simp add: adv_def)
    then show ?thesis using True c a ob by simp
  next
    case False
    then show ?thesis using c by (simp add: base_def)
  qed
  then show ?thesis
    by (simp add: base_def datetime_updates adv_def target_def)
qed

text \<open>
  Outside the window, on the days after today every candidate is after \<open>now\<close>, so the
  loop stops at the first enabled one.
\<close>

lemma scan_later_days:
  assumes v: "valid_datetime now" and bound: "ordinal now + 6 \<le> MAXORDINAL"
    and l: "mk_dtime (fst (lock_time cfg)) (snd (lock_time cfg)) = Inr lock_t"
    and u: "mk_dtime (fst (unlock_time cfg)) (snd (unlock_time cfg)) = Inr unlock_t"
    and js: "\<forall>j\<in>set js. 1 \<le> j \<and> j \<le> 6"
  shows "scan cfg now False lock_t unlock_t js =
     Inr (map_option (\<lambda>i. \<lparr>ordinal = ordinal now + i, tod = lock_t\<rparr>)
            (find (\<lambda>i. (weekday now + i) mod 7 \<in> set (days cfg)) js))"
  using js
proof (induction js)
  case Nil
  then show ?case by simp
next
  case (Cons j js)
  have j: "1 \<le> j" "j \<le> 6" using Cons.prems by simp_all
  have rest: "scan cfg now False lock_t unlock_t js =
     Inr (map_option (\<lambda>i. \<lparr>ordinal = ordinal now + i, tod = lock_t\<rparr>)
            (find (\<lambda>i. (weekday now + i) mod 7 \<in> set (days cfg)) js))"
    using Cons.prems by (intro Cons.IH) simp
  have c: "candidate cfg now False lock_t unlock_t j
      = Inr \<lparr>ordinal = ordinal now + j, tod = lock_t\<rparr>"
    using candidate_value [OF v bound l u, of j False] j by simp
  have after: "dt_key now < dt_key \<lparr>ordinal = ordinal now + j, tod = lock_t\<rparr>"
    unfolding dt_key_less_iff using j by simp
  show ?case
    by (simp add: rest c after)
qed

text \<open>
  The value of \<open>next_transition\<close> on an enabled day, in closed form.
\<close>

lemma next_transition_closed_form:
  assumes v: "valid_datetime now" and bound: "ordinal now + 6 \<le> MAXORDINAL"
    and en: "enabled cfg" and today: "weekday now \<in> set (days cfg)"
    and l: "mk_dtime (fst (lock_time cfg)) (snd (lock_time cfg)) = Inr lock_t"
    and u: "mk_dtime (fst (unlock_time cfg)) (snd (unlock_time cfg)) = Inr unlock_t"
  shows "next_transition cfg now =
     Inr (if in_window_flag lock_t unlock_t (tod now)
          then Some \<lparr>ordinal = ordinal now +
                        (if time_key unlock_t \<le> time_key lock_t
                            \<and> time_key unlock_t \<le> time_key (tod now) then 1 else 0),
                      tod = unlock_t\<rparr>
          else if time_key (tod now) < time_key lock_t
          then Some \<lparr>ordinal = ordinal now, tod = lock_t\<rparr>
          else map_option (\<lambda>i. \<lparr>ordinal = ordinal now + i, tod = lock_t\<rparr>)
                 (find (\<lambda>i. (weekday now + i) mod 7 \<in> set (days cfg)) [1, 2, 3, 4, 5, 6]))"
proof -
  define inw where "inw = in_window_flag lock_t unlock_t (tod now)"
  define c0 where "c0 = \<lparr>ordinal = ordinal now +
             (if inw \<and> time_key unlock_t \<le> time_key lock_t
                 \<and> time_key unlock_t \<le> time_key (tod now) then 1 else 0),
          tod = (if inw then unlock_t else lock_t)\<rparr>"
  have nt: "next_transition cfg now = scan cfg now inw lock_t unlock_t [0, 1, 2, 3, 4, 5, 6]"
    unfolding inw_def using en today l u by (rule next_transition_uses_isInWindow(2))
  have w0: "(weekday now + 0) mod 7 \<in> set (days cfg)"
    using today by (simp add: weekday_def)
  have cand: "candidate cfg now inw lock_t unlock_t 0 = Inr c0"
    using candidate_value [OF v bound l u, of 0 inw] by (simp add: c0_def)
  have step: "scan cfg now inw lock_t unlock_t [0, 1, 2, 3, 4, 5, 6] =
      (if dt_key now < dt_key c0 then Inr (Some c0)
       else scan cfg now inw lock_t unlock_t [1, 2, 3, 4, 5, 6])"
    by (subst scan.simps(2)) (simp only: w0 cand not_True_eq_False if_False sum.case)
  show ?thesis
  proof (cases inw)
    case True
    have "dt_key now < dt_key c0"
    proof (cases "time_key unlock_t \<le> time_key lock_t \<and> time_key unlock_t \<le> time_key (tod now)")
      case adv: True
      then show ?thesis using True by (simp add: c0_def dt_key_less_iff)
    next
      case noadv: False
      have "time_key (tod now) < time_key unlock_t"
        using True noadv unfolding inw_def in_window_flag_def
        by (auto simp: not_le not_less split: if_splits)
      then show ?thesis using True noadv by (simp add: c0_def dt_key_less_iff)
    qed
    then have "next_transition cfg now = Inr (Some c0)"
      using nt step by simp
    then show ?thesis
      using True by (simp add: c0_def inw_def [symmetric])
  next
    case False
    show ?thesis
    proof (cases "time_key (tod now) < time_key lock_t")
      case before: True
      then have "dt_key now < dt_key c0"
        using False by (simp add: c0_def dt_key_less_iff)
      then have "next_transition cfg now = Inr (Some c0)"
        using nt step by simp
      then show ?thesis
        using False before by (simp add: c0_def inw_def [symmetric])
    next
      case notbefore: False
      then have "\<not> dt_key now < dt_key c0"
        using False by (simp add: c0_def dt_key_less_iff)
      then have "next_transition cfg now = scan cfg now False lock_t unlock_t [1, 2, 3, 4, 5, 6]"
        using nt step False by simp
      also have "\<dots> = Inr (map_option (\<lambda>i. \<lparr>ordinal = ordinal now + i, tod = lock_t\<rparr>)
            (find (\<lambda>i. (weekday now + i) mod 7 \<in> set (days cfg)) [1, 2, 3, 4, 5, 6]))"
        using v bound l u by (rule scan_later_days) simp
      finally show ?thesis
        using False notbefore by (simp add: inw_def [symmetric])
    qed
  qed
qed

text \<open>
  Claim C4. On an enabled day of an enabled schedule with valid times (and \<open>now\<close> valid,
  at least six days before the last representable day), \<open>next_transition\<close> returns: inside
  the window, the unlock time of today, moved to tomorrow exactly when the window wraps and
  the time of day of \<open>now\<close> is at or after the unlock time; outside the window, the lock
  time of today when it is still ahead, and otherwise the lock time of the first enabled day
  among the next six, or nothing when none of them is enabled. Moreover every instant
  returned is the candidate of some iteration \<open>i\<close> of the seven, on an enabled day, with
  every enabled day before it giving a candidate that is not after \<open>now\<close>, and the extra
  day is added exactly when \<open>now\<close> is in the window, the window wraps, the candidate day is
  today (\<open>i = 0\<close>) and the time of day of \<open>now\<close> is at or after the unlock time.
  Concretely, for the schedule 18:00-06:00 on all seven days: on Monday at 20:00
  \<open>isInWindow\<close> is true and the next transition is Tuesday 06:00; on Monday at 05:59
  \<open>isInWindow\<close> is true and the next transition is Monday 06:00. The one-day advance also
  reaches a Tuesday that is not enabled (Mondays only, Monday 20:00), the scan runs from
  Friday 18:00 to Monday 09:00 over a weekend that is not enabled, and it ends after seven
  days (Mondays only, 09:00-17:00, Monday 18:00: nothing).
\<close>

theorem next_transition_spec:
  "(valid_datetime now \<and> ordinal now + 6 \<le> MAXORDINAL \<and>
    enabled cfg \<and> weekday now \<in> set (days cfg) \<and>
    mk_dtime (fst (lock_time cfg)) (snd (lock_time cfg)) = Inr lock_t \<and>
    mk_dtime (fst (unlock_time cfg)) (snd (unlock_time cfg)) = Inr unlock_t \<longrightarrow>
      next_transition cfg now =
        Inr (if in_window_flag lock_t unlock_t (tod now)
             then Some \<lparr>ordinal = ordinal now +
                           (if time_key unlock_t \<le> time_key lock_t
                               \<and> time_key unlock_t \<le> time_key (tod now) then 1 else 0),
                         tod = unlock_t\<rparr>
             else if time_key (tod now) < time_key lock_t
             then Some \<lparr>ordinal = ordinal now, tod = lock_t\<rparr>
             else map_option (\<lambda>i. \<lparr>ordinal = ordinal now + i, tod = lock_t\<rparr>)
                    (find (\<lambda>i. (weekday now + i) mod 7 \<in> set (days cfg))
                       [1, 2, 3, 4, 5, 6]))) \<and>
   (valid_time (tod now) \<and>
    mk_dtime (fst (lock_time cfg)) (snd (lock_time cfg)) = Inr lock_t \<and>
    mk_dtime (fst (unlock_time cfg)) (snd (unlock_time cfg)) = Inr unlock_t \<and>
    next_transition cfg now = Inr (Some r) \<longrightarrow>
      (\<exists>i. 0 \<le> i \<and> i \<le> 6 \<and> (weekday now + i) mod 7 \<in> set (days cfg) \<and>
           candidate cfg now (in_window_flag lock_t unlock_t (tod now)) lock_t unlock_t i = Inr r \<and>
           (\<forall>j. 0 \<le> j \<and> j < i \<and> (weekday now + j) mod 7 \<in> set (days cfg) \<longrightarrow>
              (\<exists>b. candidate cfg now (in_window_flag lock_t unlock_t (tod now)) lock_t unlock_t j
                     = Inr b \<and> dt_key b \<le> dt_key now)) \<and>
           tod r = (if in_window_flag lock_t unlock_t (tod now) then unlock_t else lock_t) \<and>
           ordinal r = ordinal now + i +
             (if in_window_flag lock_t unlock_t (tod now) \<and> time_key unlock_t \<le> time_key lock_t
                 \<and> i = 0 \<and> time_key unlock_t \<le> time_key (tod now) then 1 else 0))) \<and>
   isInWindow DEFAULT_CONFIG (at_hm monday 20 0) = Inr True \<and>
   next_transition DEFAULT_CONFIG (at_hm monday 20 0) = Inr (Some (at_hm tuesday 6 0)) \<and>
   isInWindow DEFAULT_CONFIG (at_hm monday 5 59) = Inr True \<and>
   next_transition DEFAULT_CONFIG (at_hm monday 5 59) = Inr (Some (at_hm monday 6 0)) \<and>
   next_transition (DEFAULT_CONFIG\<lparr>days := [0]\<rparr>) (at_hm monday 20 0)
     = Inr (Some (at_hm tuesday 6 0)) \<and>
   next_transition (office_hours [0, 1, 2, 3, 4]) (at_hm friday 18 0)
     = Inr (Some (at_hm next_monday 9 0)) \<and>
   next_transition (office_hours [0]) (at_hm monday 18 0) = Inr None"
proof (intro conjI impI)
  assume "valid_datetime now \<and> ordinal now + 6 \<le> MAXORDINAL \<and>
    enabled cfg \<and> weekday now \<in> set (days cfg) \<and>
    mk_dtime (fst (lock_time cfg)) (snd (lock_time cfg)) = Inr lock_t \<and>
    mk_dtime (fst (unlock_time cfg)) (snd (unlock_time cfg)) = Inr unlock_t"
  then show "next_transition cfg now =
        Inr (if in_window_flag lock_t unlock_t (tod now)
             then Some \<lparr>ordinal = ordinal now +
                           (if time_key unlock_t \<le> time_key lock_t
                               \<and> time_key unlock_t \<le> time_key (tod now) then 1 else 0),
                         tod = unlock_t\<rparr>
             else if time_key (tod now) < time_key lock_t
             then Some \<lparr>ordinal = ordinal now, tod = lock_t\<rparr>
             else map_option (\<lambda>i. \<lparr>ordinal = ordinal now + i, tod = lock_t\<rparr>)
                    (find (\<lambda>i. (weekday now + i) mod 7 \<in> set (days cfg))
                       [1, 2, 3, 4, 5, 6]))"
    by (intro next_transition_closed_form) simp_all
next
  assume "valid_time (tod now) \<and>
    mk_dtime (fst (lock_time cfg)) (snd (lock_time cfg)) = Inr lock_t \<and>
    mk_dtime (fst (unlock_time cfg)) (snd (unlock_time cfg)) = Inr unlock_t \<and>
    next_transition cfg now = Inr (Some r)"
  then show "\<exists>i. 0 \<le> i \<and> i \<le> 6 \<and> (weekday now + i) mod 7 \<in> set (days cfg) \<and>
           candidate cfg now (in_window_flag lock_t unlock_t (tod now)) lock_t unlock_t i = Inr r \<and>
           (\<forall>j. 0 \<le> j \<and> j < i \<and> (weekday now + j) mod 7 \<in> set (days cfg) \<longrightarrow>
              (\<exists>b. candidate cfg now (in_window_flag lock_t unlock_t (tod now)) lock_t unlock_t j
                     = Inr b \<and> dt_key b \<le> dt_key now)) \<and>
           tod r = (if in_window_flag lock_t unlock_t (tod now) then unlock_t else lock_t) \<and>
           ordinal r = ordinal now + i +
             (if in_window_flag lock_t unlock_t (tod now) \<and> time_key unlock_t \<le> time_key lock_t
                 \<and> i = 0 \<and> time_key unlock_t \<le> time_key (tod now) then 1 else 0)"
    by (intro next_transition_first_candidate) simp_all
next
  show "isInWindow DEFAULT_CONFIG (at_hm monday 20 0) = Inr True"
    by (simp add: concrete_defs isInWindow_def in_window_flag_def)
next
  show "next_transition DEFAULT_CONFIG (at_hm monday 20 0) = Inr (Some (at_hm tuesday 6 0))"
    by (simp add: concrete_defs transition_defs)
next
  show "isInWindow DEFAULT_CONFIG (at_hm monday 5 59) = Inr True"
    by (simp add: concrete_defs isInWindow_def in_window_flag_def)
next
  show "next_transition DEFAULT_CONFIG (at_hm monday 5 59) = Inr (Some (at_hm monday 6 0))"
    by (simp add: concrete_defs transition_defs)
next
  show "next_transition (DEFAULT_CONFIG\<lparr>days := [0]\<rparr>) (at_hm monday 20 0)
     = Inr (Some (at_hm tuesday 6 0))"
    by (simp add: concrete_defs transition_defs)
next
  show "next_transition (office_hours [0, 1, 2, 3, 4]) (at_hm friday 18 0)
     = Inr (Some (at_hm next_monday 9 0))"
    by (simp add: concrete_defs transition_defs)
next
  show "next_transition (office_hours [0]) (at_hm monday 18 0) = Inr None"
    by (simp add: concrete_defs transition_defs)
qed

text \<open>
  Witness for C4: the closed form at five instants, with the advance to tomorrow, the unlock
  time of today, the lock time of today, the scan to a later day and the scan that finds
  nothing.
\<close>

theorem next_transition_spec_witness:
  "next_transition (DEFAULT_CONFIG\<lparr>days := [0]\<rparr>) (at_hm monday 20 0)
     = Inr (Some (at_hm tuesday 6 0)) \<and>
   next_transition DEFAULT_CONFIG (at_hm monday 5 59) = Inr (Some (at_hm monday 6 0)) \<and>
   next_transition DEFAULT_CONFIG (at_hm monday 12 0) = Inr (Some (at_hm monday 18 0)) \<and>
   next_transition (office_hours [0, 1, 2, 3, 4]) (at_hm friday 18 0)
     = Inr (Some (at_hm next_monday 9 0)) \<and>
   next_transition (office_hours [0]) (at_hm monday 18 0) = Inr None"
proof -
  let ?l18 = "\<lparr>hour = 18, minute = 0, second = 0, microsecond = 0\<rparr>"
  let ?u6 = "\<lparr>hour = 6, minute = 0, second = 0, microsecond = 0\<rparr>"
  let ?l9 = "\<lparr>hour = 9, minute = 0, second = 0, microsecond = 0\<rparr>"
  let ?u17 = "\<lparr>hour = 17, minute = 0, second = 0, microsecond = 0\<rparr>"
  have r1: "next_transition (DEFAULT_CONFIG\<lparr>days := [0]\<rparr>) (at_hm monday 20 0)
     = Inr (Some (at_hm tuesday 6 0))"
    using next_transition_spec [of "at_hm monday 20 0" "DEFAULT_CONFIG\<lparr>days := [0]\<rparr>" ?l18 ?u6,
        THEN conjunct1]
    by (simp add: concrete_defs valid_datetime_def valid_time_def MAXORDINAL_def
          in_window_flag_def)
  have r2: "next_transition DEFAULT_CONFIG (at_hm monday 5 59) = Inr (Some (at_hm monday 6 0))"
    using next_transition_spec [of "at_hm monday 5 59" DEFAULT_CONFIG ?l18 ?u6,
        THEN conjunct1]
    by (simp add: concrete_defs valid_datetime_def valid_time_def MAXORDINAL_def
          in_window_flag_def)
  have r3: "next_transition DEFAULT_CONFIG (at_hm monday 12 0) = Inr (Some (at_hm monday 18 0))"
    using next_transition_spec [of "at_hm monday 12 0" DEFAULT_CONFIG ?l18 ?u6,
        THEN conjunct1]
    by (simp add: concrete_defs valid_datetime_def valid_time_def MAXORDINAL_def
          in_window_flag_def)
  have r4: "next_transition (office_hours [0, 1, 2, 3, 4]) (at_hm friday 18 0)
     = Inr (Some (at_hm next_monday 9 0))"
    using next_transition_spec [of "at_hm friday 18 0" "office_hours [0, 1, 2, 3, 4]" ?l9 ?u17,
        THEN conjunct1]
    by (simp add: concrete_defs valid_datetime_def valid_time_def MAXORDINAL_def
          in_window_flag_def)
  have r5: "next_transition (office_hours [0]) (at_hm monday 18 0) = Inr None"
    using next_transition_spec [of "at_hm monday 18 0" "office_hours [0]" ?l9 ?u17,
        THEN conjunct1]
    by (simp add: concrete_defs valid_datetime_def valid_time_def MAXORDINAL_def
          in_window_flag_def)
  show ?thesis using r1 r2 r3 r4 r5 by (intro conjI)
qed

text \<open>
  Claim C5 says that with enabled days 1..5 Saturday is not enabled, and that from a day
  that is not enabled the next transition is still found. Counterexample: the code numbers
  the days from Monday = 0, so Saturday is day 5 and enabled; on Saturday at 10:00 the
  09:00-17:00 schedule is in its window and the next transition is Saturday 17:00, not
  Monday 09:00. And with Monday to Friday enabled (days 0..4), where Saturday is not
  enabled, there is no next transition at all.
\<close>

theorem not_enabled_today_counterexample:
  "weekday (at_hm saturday 10 0) \<in> set (days (office_hours [1, 2, 3, 4, 5])) \<and>
   isInWindow (office_hours [1, 2, 3, 4, 5]) (at_hm saturday 10 0) = Inr True \<and>
   next_transition (office_hours [1, 2, 3, 4, 5]) (at_hm saturday 10 0)
     = Inr (Some (at_hm saturday 17 0)) \<and>
   next_transition (office_hours [0, 1, 2, 3, 4]) (at_hm saturday 10 0) = Inr None"
  by (simp add: concrete_defs transition_defs isInWindow_def)

text \<open>
  Claim C5, amended. When the weekday of \<open>now\<close> is not an enabled day, \<open>isInWindow\<close> is
  false and \<open>next_transition\<close> reports no upcoming transition (line 224 returns before
  the scan). For the schedule 09:00-17:00: with days 1..5, which are Tuesday to Saturday,
  Saturday 10:00 is in the window and the next transition is Saturday 17:00; with days
  0..4, Monday to Friday, Saturday 10:00 is outside the window and has no next transition,
  while from the enabled Friday at 18:00 the scan reaches Monday 09:00.
\<close>

theorem next_transition_needs_enabled_today:
  "(weekday now \<notin> set (days cfg) \<longrightarrow>
      isInWindow cfg now = Inr False \<and> next_transition cfg now = Inr None) \<and>
   weekday (at_hm saturday 10 0) = 5 \<and>
   isInWindow (office_hours [1, 2, 3, 4, 5]) (at_hm saturday 10 0) = Inr True \<and>
   next_transition (office_hours [1, 2, 3, 4, 5]) (at_hm saturday 10 0)
     = Inr (Some (at_hm saturday 17 0)) \<and>
   isInWindow (office_hours [0, 1, 2, 3, 4]) (at_hm saturday 10 0) = Inr False \<and>
   next_transition (office_hours [0, 1, 2, 3, 4]) (at_hm saturday 10 0) = Inr None \<and>
   next_transition (office_hours [0, 1, 2, 3, 4]) (at_hm friday 18 0)
     = Inr (Some (at_hm next_monday 9 0))"
proof (intro conjI impI)
  assume "weekday now \<notin> set (days cfg)"
  then show "isInWindow cfg now = Inr False" "next_transition cfg now = Inr None"
    by (simp_all add: isInWindow_def next_transition_def del: scan.simps)
qed (simp_all add: concrete_defs transition_defs isInWindow_def)

text \<open>
  Witness for C5 (amended): Saturday is not among the days 0..4.
\<close>

theorem next_transition_needs_enabled_today_witness:
  "weekday (at_hm saturday 10 0) \<notin> set (days (office_hours [0, 1, 2, 3, 4])) \<and>
   isInWindow (office_hours [0, 1, 2, 3, 4]) (at_hm saturday 10 0) = Inr False \<and>
   next_transition (office_hours [0, 1, 2, 3, 4]) (at_hm saturday 10 0) = Inr None"
proof -
  have h: "weekday (at_hm saturday 10 0) \<notin> set (days (office_hours [0, 1, 2, 3, 4]))"
    by (simp add: concrete_defs)
  show ?thesis
    using h next_transition_needs_enabled_today
      [of "at_hm saturday 10 0" "office_hours [0, 1, 2, 3, 4]"]
    by blast
qed

end
